theory Spec2Isabelle
  imports Main "HOL-Library.AList" "HOL-Library.Char_ord" "HOL-Library.List_Lexorder"
begin

section \<open>Text\<close>

text \<open>
  A Python \<open>str\<close> is modelled as a HOL \<open>string\<close>; a \<open>char\<close> stands for the code point
  of the same number. The model covers text over the code points 0..255 whose upper case
  lies within these code points: all of them but U+00B5 (its upper case is U+039C) and
  U+00FF (its upper case is U+0178). Text over the covered code points stays within them
  under every function of this section (lemmas \<open>covered_upper\<close> and \<open>covered_lower\<close>); the
  two other characters and the code points from 256 on are outside the model. The order
  on strings is the lexicographic order on code points, which is how Python compares
  \<open>str\<close>.
\<close>

definition covered :: "char \<Rightarrow> bool" where
  "covered c = (c \<noteq> CHR 0xB5 \<and> c \<noteq> CHR 0xFF)"

text \<open>
  \<open>is_space\<close> is \<open>str.isspace\<close> on one character (it is also the class \<open>\s\<close> of \<open>re\<close>):
  TAB, LF, VT, FF, CR, the separators 0x1C..0x1F, the space, NEL (0x85) and NBSP (0xA0).
\<close>

definition is_space :: "char \<Rightarrow> bool" where
  "is_space c =
     (let n = (of_char c :: nat)
      in (9 \<le> n \<and> n \<le> 13) \<or> (28 \<le> n \<and> n \<le> 32) \<or> n = 133 \<or> n = 160)"

text \<open>
  \<open>str.upper\<close> maps every character to its upper case, which can be more than one
  character: an ASCII letter and a Latin-1 letter 0xE0..0xFE (without the sign 0xF7) go to
  the letter 32 code points below, the sharp s (0xDF) goes to \<open>SS\<close>, and every other
  covered character stays. \<open>str.lower\<close> maps the ASCII letters and the Latin-1 letters
  0xC0..0xDE (without the sign 0xD7) to the letter 32 code points above.
\<close>

definition upper_char :: "char \<Rightarrow> string" where
  "upper_char c =
     (let n = (of_char c :: nat)
      in if (97 \<le> n \<and> n \<le> 122) \<or> (224 \<le> n \<and> n \<le> 254 \<and> n \<noteq> 247)
         then [char_of (n - 32)]
         else if n = 223 then ''SS''
         else [c])"

definition lower_char :: "char \<Rightarrow> char" where
  "lower_char c =
     (let n = (of_char c :: nat)
      in if (65 \<le> n \<and> n \<le> 90) \<or> (192 \<le> n \<and> n \<le> 222 \<and> n \<noteq> 215)
         then char_of (n + 32) else c)"

definition upper :: "string \<Rightarrow> string" where
  "upper s = concat (map upper_char s)"

definition lower :: "string \<Rightarrow> string" where
  "lower s = map lower_char s"

definition lstrip :: "string \<Rightarrow> string" where
  "lstrip s = dropWhile is_space s"

definition rstrip :: "string \<Rightarrow> string" where
  "rstrip s = rev (dropWhile is_space (rev s))"

definition strip :: "string \<Rightarrow> string" where
  "strip s = lstrip (rstrip s)"

section \<open>Status canonicalizer\<close>

text \<open>
  The three scripts carry their own table \<open>CANON_STATUSES\<close> and the same function
  \<open>_canon_status\<close>: \<open>s = (s or "").strip().upper(); return CANON_STATUSES.get(s, s)\<close>.
  The argument is always a \<open>str\<close>, and \<open>s or ""\<close> is \<open>s\<close> for every \<open>str\<close>.
\<close>

definition CANON_STATUSES :: "(string \<times> string) list" where
  "CANON_STATUSES =
     [(''PASSED'', ''PASSED''), (''FAILED'', ''FAILED''), (''SKIPPED'', ''SKIPPED''),
      (''XFAILED'', ''XFAILED''), (''XPASS'', ''XPASS''), (''ERROR'', ''ERROR'')]"

definition CANON_STATUSES_cpp :: "(string \<times> string) list" where
  "CANON_STATUSES_cpp =
     [(''PASSED'', ''PASSED''), (''FAILED'', ''FAILED''), (''SKIPPED'', ''SKIPPED''),
      (''XFAILED'', ''XFAILED''), (''XPASS'', ''XPASS''), (''ERROR'', ''ERROR''),
      (''OK'', ''PASSED'')]"

definition CANON_STATUSES_rust :: "(string \<times> string) list" where
  "CANON_STATUSES_rust =
     [(''PASSED'', ''PASSED''), (''FAILED'', ''FAILED''), (''SKIPPED'', ''SKIPPED''),
      (''XFAILED'', ''XFAILED''), (''XPASS'', ''XPASS''), (''ERROR'', ''ERROR''),
      (''OK'', ''PASSED''), (''IGNORED'', ''SKIPPED'')]"

definition canon_status_in :: "(string \<times> string) list \<Rightarrow> string \<Rightarrow> string" where
  "canon_status_in table s =
     (let s' = upper (strip s)
      in case map_of table s' of Some v \<Rightarrow> v | None \<Rightarrow> s')"

definition canon_status :: "string \<Rightarrow> string" where
  "canon_status = canon_status_in CANON_STATUSES"

definition canon_status_cpp :: "string \<Rightarrow> string" where
  "canon_status_cpp = canon_status_in CANON_STATUSES_cpp"

definition canon_status_rust :: "string \<Rightarrow> string" where
  "canon_status_rust = canon_status_in CANON_STATUSES_rust"

section \<open>Result sets and the comparator\<close>

text \<open>
  A \<open>Dict[str, str]\<close> is an association list in insertion order; \<open>d[k] = v\<close> is
  \<open>AList.update k v d\<close> (the value is replaced in place, a new key goes to the end),
  \<open>set(d)\<close> is the set of its keys and \<open>d[k]\<close> is \<open>map_of d k\<close>.
\<close>

type_synonym ResultSet = "(string \<times> string) list"

definition names_of :: "ResultSet \<Rightarrow> string set" where
  "names_of d = set (map fst d)"

record ComparisonResult =
  same :: bool
  counts_equal :: bool
  names_equal :: bool
  statuses_equal :: bool
  count_json :: nat
  count_log :: nat
  only_in_json :: "string list"
  only_in_log :: "string list"
  status_mismatches :: "(string \<times> string \<times> string) list"

text \<open>
  One entry of the comprehension
  \<open>[(n, json_results[n], log_results[n]) for n in ... if json_results[n] != log_results[n]]\<close>.
  Python raises KeyError when a key is missing; \<open>n\<close> ranges over the common names only,
  so both lookups succeed (lemma \<open>mismatch_of_common\<close> below).
\<close>

definition mismatch_of :: "ResultSet \<Rightarrow> ResultSet \<Rightarrow> string \<Rightarrow> (string \<times> string \<times> string) option" where
  "mismatch_of json_results log_results n =
     (case (map_of json_results n, map_of log_results n) of
        (Some js, Some ls) \<Rightarrow> if js \<noteq> ls then Some (n, js, ls) else None
      | _ \<Rightarrow> None)"

text \<open>\<open>compare\<close> is the same function in \<open>script.py\<close>, \<open>script_cpp.py\<close> and \<open>script_rust.py\<close>.\<close>

definition compare :: "ResultSet \<Rightarrow> ResultSet \<Rightarrow> ComparisonResult" where
  "compare json_results log_results =
     (let json_names = names_of json_results;
          log_names = names_of log_results;
          oj = sorted_list_of_set (json_names - log_names);
          ol = sorted_list_of_set (log_names - json_names);
          mm = List.map_filter (mismatch_of json_results log_results)
                 (sorted_list_of_set (json_names \<inter> log_names));
          ce = (card json_names = card log_names);
          ne = (oj = [] \<and> ol = []);
          se = (mm = [])
      in \<lparr> same = (ce \<and> ne \<and> se),
           counts_equal = ce,
           names_equal = ne,
           statuses_equal = se,
           count_json = card json_names,
           count_log = card log_names,
           only_in_json = oj,
           only_in_log = ol,
           status_mismatches = mm \<rparr>)"

section \<open>More text functions\<close>

text \<open>
  \<open>str.splitlines()\<close>: a line ends at LF, CR, CR LF, VT, FF, 0x1C, 0x1D, 0x1E or NEL
  (0x85); the line ends are dropped, and text that ends with a line end has no empty last
  line.
\<close>

definition is_linebreak :: "char \<Rightarrow> bool" where
  "is_linebreak c =
     (let n = (of_char c :: nat) in (10 \<le> n \<and> n \<le> 13) \<or> (28 \<le> n \<and> n \<le> 30) \<or> n = 133)"

fun splitlines_from :: "string \<Rightarrow> string \<Rightarrow> string list" where
  "splitlines_from cur [] = (if cur = [] then [] else [rev cur])"
| "splitlines_from cur [c] = (if is_linebreak c then [rev cur] else [rev (c # cur)])"
| "splitlines_from cur (c # d # cs) =
     (if c = CHR 0x0D \<and> d = CHR 0x0A then rev cur # splitlines_from [] cs
      else if is_linebreak c then rev cur # splitlines_from [] (d # cs)
      else splitlines_from (c # cur) (d # cs))"

definition splitlines :: "string \<Rightarrow> string list" where
  "splitlines s = splitlines_from [] s"

text \<open>\<open>sub in s\<close> for two strings.\<close>

primrec contains :: "string \<Rightarrow> string \<Rightarrow> bool" where
  "contains sub [] = (sub = [])"
| "contains sub (c # cs) = (take (length sub) (c # cs) = sub \<or> contains sub cs)"

section \<open>Regular expressions\<close>

text \<open>
  The patterns of the scripts are matched by Python's backtracking matcher, which returns
  the first match in its search order. A pattern is a term of \<open>rx\<close>, and \<open>run r st\<close> lists
  the states the matcher can be in after \<open>r\<close>, in the order in which it tries them: the
  alternatives of \<open>|\<close> from left to right, a greedy repetition from the longest to the
  shortest, a lazy one from the shortest to the longest. A state is the character before
  the position (\<open>None\<close> at the start of the string), the text from the position on, and
  the groups captured so far.
\<close>

datatype rx =
    Cls "char \<Rightarrow> bool"
  | Lit string
  | Seq rx rx
  | Alt rx rx
  | Opt rx
  | Rep bool nat "char \<Rightarrow> bool"
  | Grp string rx
  | Bow
  | Bos
  | Eos

type_synonym mstate = "char option \<times> string \<times> (string \<times> string) list"

text \<open>\<open>\w\<close>: the characters for which \<open>str.isalnum\<close> holds, and the underscore.\<close>

definition is_word :: "char \<Rightarrow> bool" where
  "is_word c =
     (let n = (of_char c :: nat)
      in (48 \<le> n \<and> n \<le> 57) \<or> (65 \<le> n \<and> n \<le> 90) \<or> n = 95 \<or> (97 \<le> n \<and> n \<le> 122) \<or>
         n = 170 \<or> n = 178 \<or> n = 179 \<or> n = 181 \<or> n = 185 \<or> n = 186 \<or>
         (188 \<le> n \<and> n \<le> 190) \<or> (192 \<le> n \<and> n \<le> 214) \<or> (216 \<le> n \<and> n \<le> 246) \<or>
         (248 \<le> n \<and> n \<le> 255))"

text \<open>\<open>.\<close> without DOTALL: every character but the line feed.\<close>

definition dot :: "char \<Rightarrow> bool" where
  "dot c = (c \<noteq> CHR 0x0A)"

text \<open>\<open>spans p pv r\<close>: the positions after 0, 1, 2, ... characters of the class \<open>p\<close>.\<close>

primrec spans :: "(char \<Rightarrow> bool) \<Rightarrow> char option \<Rightarrow> string \<Rightarrow> (char option \<times> string) list" where
  "spans p pv [] = [(pv, [])]"
| "spans p pv (c # cs) = (pv, c # cs) # (if p c then spans p (Some c) cs else [])"

primrec run_lit :: "string \<Rightarrow> char option \<Rightarrow> string \<Rightarrow> (char option \<times> string) list" where
  "run_lit [] pv r = [(pv, r)]"
| "run_lit (a # as) pv r =
     (case r of [] \<Rightarrow> [] | c # cs \<Rightarrow> if c = a then run_lit as (Some c) cs else [])"

definition at_boundary :: "char option \<Rightarrow> string \<Rightarrow> bool" where
  "at_boundary pv r =
     ((case pv of None \<Rightarrow> False | Some c \<Rightarrow> is_word c) \<noteq>
      (case r of [] \<Rightarrow> False | c # _ \<Rightarrow> is_word c))"

text \<open>
  \<open>^\<close> (no MULTILINE) holds at the start of the string; \<open>$\<close> holds at the end of the string
  and before a line feed that ends the string.
\<close>

primrec run :: "rx \<Rightarrow> mstate \<Rightarrow> mstate list" where
  "run (Cls p) st =
     (case st of (pv, r, g) \<Rightarrow>
        (case r of [] \<Rightarrow> [] | c # cs \<Rightarrow> if p c then [(Some c, cs, g)] else []))"
| "run (Lit l) st =
     (case st of (pv, r, g) \<Rightarrow> map (\<lambda>(pv', r'). (pv', r', g)) (run_lit l pv r))"
| "run (Seq a b) st = concat (map (run b) (run a st))"
| "run (Alt a b) st = run a st @ run b st"
| "run (Opt a) st = run a st @ [st]"
| "run (Rep greedy m p) st =
     (case st of (pv, r, g) \<Rightarrow>
        (let xs = map (\<lambda>(pv', r'). (pv', r', g)) (drop m (spans p pv r))
         in if greedy then rev xs else xs))"
| "run (Grp n a) st =
     (case st of (pv, r, g) \<Rightarrow>
        map (\<lambda>(pv', r', g'). (pv', r', AList.update n (take (length r - length r') r) g'))
          (run a st))"
| "run Bow st = (case st of (pv, r, g) \<Rightarrow> if at_boundary pv r then [st] else [])"
| "run Bos st = (case st of (pv, r, g) \<Rightarrow> if pv = None then [st] else [])"
| "run Eos st = (case st of (pv, r, g) \<Rightarrow> if r = [] \<or> r = [CHR 0x0A] then [st] else [])"

fun seqs :: "rx list \<Rightarrow> rx" where
  "seqs [] = Lit []"
| "seqs [r] = r"
| "seqs (r # rs) = Seq r (seqs rs)"

fun alts :: "string list \<Rightarrow> rx" where
  "alts [] = Lit []"
| "alts [l] = Lit l"
| "alts (l # ls) = Alt (Lit l) (alts ls)"

text \<open>\<open>pattern.match(s)\<close>: the groups of the first match at the start of \<open>s\<close>, if there is one.\<close>

definition re_match :: "rx \<Rightarrow> string \<Rightarrow> (string \<times> string) list option" where
  "re_match r s = (case run r (None, s, []) of [] \<Rightarrow> None | (pv, r', g) # _ \<Rightarrow> Some g)"

text \<open>
  \<open>m.group(n)\<close>. Every group of the scripts' patterns takes part in every match, so the
  group is always there.
\<close>

definition mgroup :: "(string \<times> string) list \<Rightarrow> string \<Rightarrow> string" where
  "mgroup m n = (case map_of m n of Some s \<Rightarrow> s | None \<Rightarrow> [])"

text \<open>
  \<open>re.sub(r, "", s)\<close>: from left to right, every match of \<open>r\<close> is cut out and the search
  goes on behind it; where there is no match (or an empty one) the character stays.
\<close>

fun re_sub_del :: "rx \<Rightarrow> char option \<Rightarrow> string \<Rightarrow> string" where
  "re_sub_del r pv s =
     (case run r (pv, s, []) of
        (pv', s', g) # _ \<Rightarrow>
          if length s' < length s then re_sub_del r pv' s'
          else (case s of [] \<Rightarrow> [] | c # cs \<Rightarrow> c # re_sub_del r (Some c) cs)
      | [] \<Rightarrow> (case s of [] \<Rightarrow> [] | c # cs \<Rightarrow> c # re_sub_del r (Some c) cs))"

section \<open>JSON values and errors\<close>

text \<open>
  \<open>json\<close> is a value as \<open>json.loads\<close> returns it (see the section on JSON values below).
  \<open>error\<close> holds the exceptions the extractors raise, as values. All but the last two are \<open>ValueError\<close>
  (the spec's MalformedInputError) with the message named in the comment; a preview is
  the offending line when it has at most 160 characters, and otherwise its first 160
  characters followed by an ellipsis.
\<close>

datatype preview = Whole string | Truncated string

datatype json =
    JNull
  | JBool bool
  | JInt int
  | JFloat string
  | JStr string
  | JList "json list"
  | JDict "(string \<times> json) list"

datatype error =
    NoTestList                            \<comment> \<open>"JSON does not contain a list of tests ..."\<close>
  | NotJsonOrNdjson nat preview string    \<comment> \<open>"JSON parse failed. Not valid JSON or NDJSON. Problem at line i: preview; First 160 chars of file: ..."\<close>
  | EntryNotObject nat json               \<comment> \<open>"Test entry i is not an object: ..."\<close>
  | EntryMissingName nat                  \<comment> \<open>"Test entry i missing 'name'"\<close>
  | ZeroTests                             \<comment> \<open>"Parsed JSON but found zero tests."\<close>
  | ZeroOutcomeLines                      \<comment> \<open>"Parsed log but found zero ... outcome lines. ..."\<close>
  | TypeError                             \<comment> \<open>iterating over a value that is not iterable\<close>
  | AttributeError                        \<comment> \<open>calling \<open>.get\<close> or \<open>.strip\<close> on a value that has none\<close>

definition is_ValueError :: "error \<Rightarrow> bool" where
  "is_ValueError e = (e \<noteq> TypeError \<and> e \<noteq> AttributeError)"

section \<open>The generic line-oriented log (script.py)\<close>

text \<open>
  \<open>LOG_LINE_RE\<close>, compiled with \<open>re.VERBOSE\<close>:
  \<^verbatim>\<open>^(?P<name>.+?)\s+(?P<status>PASSED|FAILED|SKIPPED|XFAILED|XPASS|ERROR|RERUN)(?:\b.*)?$\<close>
\<close>

definition LOG_LINE_RE :: rx where
  "LOG_LINE_RE =
     seqs [Bos, Grp ''name'' (Rep False 1 dot), Rep True 1 is_space,
           Grp ''status'' (alts [''PASSED'', ''FAILED'', ''SKIPPED'', ''XFAILED'', ''XPASS'',
                                 ''ERROR'', ''RERUN'']),
           Opt (Seq Bow (Rep True 0 dot)), Eos]"

text \<open>
  The body of the loop of \<open>parse_pytest_log\<close> on one line \<open>raw\<close> of the text, with the
  mapping \<open>last_status\<close> passed through.
\<close>

definition pytest_step :: "ResultSet \<Rightarrow> string \<Rightarrow> ResultSet" where
  "pytest_step last_status raw =
     (let line = strip raw
      in if line = [] then last_status
         else case re_match LOG_LINE_RE line of
                None \<Rightarrow> last_status
              | Some m \<Rightarrow>
                  (let name = strip (mgroup m ''name'');
                       status = canon_status (mgroup m ''status'')
                   in if status = ''RERUN'' then last_status
                      else AList.update name status last_status))"

text \<open>
  What \<open>LOG_LINE_RE\<close> reads from a line of the log: the name (trimmed) and the status
  token, when the trimmed line matches.
\<close>

definition pytest_line_reads :: "string \<Rightarrow> (string \<times> string) option" where
  "pytest_line_reads raw =
     map_option (\<lambda>m. (strip (mgroup m ''name''), mgroup m ''status''))
       (re_match LOG_LINE_RE (strip raw))"

definition pytest_lines :: "string list \<Rightarrow> error + ResultSet" where
  "pytest_lines lines =
     (let last_status = foldl pytest_step [] lines
      in if last_status = [] then Inl ZeroOutcomeLines else Inr last_status)"

text \<open>\<open>parse_pytest_log\<close>, from the text that \<open>_ensure_file_ok\<close> read.\<close>

definition parse_pytest_log :: "string \<Rightarrow> error + ResultSet" where
  "parse_pytest_log txt = pytest_lines (splitlines txt)"

section \<open>The bracketed log, text pass (script_cpp.py)\<close>

text \<open>
  \<open>GTEST_OUTCOME_RE\<close> (with \<open>re.VERBOSE\<close>):
  \<^verbatim>\<open>^\[\s*(?P<tag>OK|FAILED|SKIPPED)\s*\]\s+(?P<name>.+?)(?:\s+\(.*\))?\s*$\<close>

  \<open>GTEST_SUMMARY_FAIL_RE\<close>:
  \<^verbatim>\<open>^\[\s*FAILED\s*\]\s+(?P<name>.+?)\s*$\<close>

  and the pattern of \<open>_sanitize_gtest_name\<close>:
  \<^verbatim>\<open>\s+\(.*\)\s*$\<close>
\<close>

definition GTEST_OUTCOME_RE :: rx where
  "GTEST_OUTCOME_RE =
     seqs [Bos, Lit ''['', Rep True 0 is_space,
           Grp ''tag'' (alts [''OK'', ''FAILED'', ''SKIPPED'']),
           Rep True 0 is_space, Lit '']'', Rep True 1 is_space,
           Grp ''name'' (Rep False 1 dot),
           Opt (seqs [Rep True 1 is_space, Lit ''('', Rep True 0 dot, Lit '')'']),
           Rep True 0 is_space, Eos]"

definition GTEST_SUMMARY_FAIL_RE :: rx where
  "GTEST_SUMMARY_FAIL_RE =
     seqs [Bos, Lit ''['', Rep True 0 is_space, Lit ''FAILED'', Rep True 0 is_space, Lit '']'',
           Rep True 1 is_space, Grp ''name'' (Rep False 1 dot), Rep True 0 is_space, Eos]"

definition GTEST_SUFFIX_RE :: rx where
  "GTEST_SUFFIX_RE =
     seqs [Rep True 1 is_space, Lit ''('', Rep True 0 dot, Lit '')'', Rep True 0 is_space, Eos]"

definition sanitize_gtest_name :: "string \<Rightarrow> string" where
  "sanitize_gtest_name name = strip (re_sub_del GTEST_SUFFIX_RE None name)"

text \<open>
  What one line of the log sets, if anything: the first pattern gives the name and the
  canonical status of its tag, the second pattern (tried when the first does not match)
  gives the name and FAILED.
\<close>

definition gtest_line_entry :: "string \<Rightarrow> (string \<times> string) option" where
  "gtest_line_entry raw =
     (let line = rstrip raw
      in if line = [] then None
         else case re_match GTEST_OUTCOME_RE line of
                Some m \<Rightarrow>
                  (let tag = upper (mgroup m ''tag'');
                       name = sanitize_gtest_name (mgroup m ''name'');
                       status = canon_status_cpp tag
                   in Some (name, status))
              | None \<Rightarrow>
                  (case re_match GTEST_SUMMARY_FAIL_RE line of
                     Some m2 \<Rightarrow> Some (sanitize_gtest_name (mgroup m2 ''name''), ''FAILED'')
                   | None \<Rightarrow> None))"

definition gtest_step :: "ResultSet \<Rightarrow> string \<Rightarrow> ResultSet" where
  "gtest_step results raw =
     (case gtest_line_entry raw of
        None \<Rightarrow> results
      | Some (name, status) \<Rightarrow> AList.update name status results)"

definition gtest_lines :: "string list \<Rightarrow> error + ResultSet" where
  "gtest_lines lines =
     (let results = foldl gtest_step [] lines
      in if results = [] then Inl ZeroOutcomeLines else Inr results)"

text \<open>The second half of \<open>parse_gtest_log\<close>: the scan of the lines of the text.\<close>

definition gtest_text_pass :: "string \<Rightarrow> error + ResultSet" where
  "gtest_text_pass txt = gtest_lines (splitlines txt)"

section \<open>The systems-language log, text pass (script_rust.py)\<close>

text \<open>
  \<open>RUST_TEST_LINE_RE\<close> (with \<open>re.VERBOSE\<close>):
  \<^verbatim>\<open>^test\s+(?P<name>.+?)\s+\.\.\.\s+(?P<status>ok|FAILED|ignored)(?:\b.*)?$\<close>
\<close>

definition RUST_TEST_LINE_RE :: rx where
  "RUST_TEST_LINE_RE =
     seqs [Bos, Lit ''test'', Rep True 1 is_space, Grp ''name'' (Rep False 1 dot),
           Rep True 1 is_space, Lit ''...'', Rep True 1 is_space,
           Grp ''status'' (alts [''ok'', ''FAILED'', ''ignored'']),
           Opt (Seq Bow (Rep True 0 dot)), Eos]"

definition rust_text_step :: "ResultSet \<Rightarrow> string \<Rightarrow> ResultSet" where
  "rust_text_step results raw =
     (let line = rstrip raw
      in if line = [] then results
         else case re_match RUST_TEST_LINE_RE line of
                None \<Rightarrow> results
              | Some m \<Rightarrow>
                  (let name = strip (mgroup m ''name'');
                       status_raw = mgroup m ''status'';
                       status = (if status_raw = ''ok'' then ''PASSED''
                                 else if status_raw = ''FAILED'' then ''FAILED''
                                 else if status_raw = ''ignored'' then ''SKIPPED''
                                 else canon_status_rust status_raw)
                   in AList.update name status results))"

definition parse_rust_text_lines :: "string \<Rightarrow> ResultSet" where
  "parse_rust_text_lines txt = foldl rust_text_step [] (splitlines txt)"

section \<open>Operations on JSON values\<close>

text \<open>
  The value \<open>json.loads\<close> returns is a \<open>json\<close>: \<open>None\<close>, a \<open>bool\<close>, an \<open>int\<close>, a \<open>float\<close>
  (carried as the text \<open>str\<close> gives for it), a \<open>str\<close>, a \<open>list\<close> or a \<open>dict\<close> with string keys
  (an association list; \<open>json.loads\<close> keeps one value per key).
  \<open>json.loads\<close> itself is a function of Python's library; the extractors take it as the
  parameter \<open>loads\<close>, where \<open>loads s = None\<close> stands for \<open>json.JSONDecodeError\<close>. In the same
  way \<open>rp\<close> is the text \<open>str\<close> gives for a list or a dict.
\<close>

definition truthy :: "json \<Rightarrow> bool" where
  "truthy v =
     (case v of
        JNull \<Rightarrow> False
      | JBool b \<Rightarrow> b
      | JInt i \<Rightarrow> i \<noteq> 0
      | JFloat f \<Rightarrow> f \<noteq> ''0.0'' \<and> f \<noteq> ''-0.0''
      | JStr s \<Rightarrow> s \<noteq> []
      | JList l \<Rightarrow> l \<noteq> []
      | JDict d \<Rightarrow> d \<noteq> [])"

fun digits_of :: "nat \<Rightarrow> string" where
  "digits_of n =
     (if n < 10 then [char_of (48 + n)] else digits_of (n div 10) @ [char_of (48 + n mod 10)])"

definition py_str :: "(json \<Rightarrow> string) \<Rightarrow> json \<Rightarrow> string" where
  "py_str rp v =
     (case v of
        JNull \<Rightarrow> ''None''
      | JBool b \<Rightarrow> (if b then ''True'' else ''False'')
      | JInt i \<Rightarrow> (if i < 0 then CHR ''-'' # digits_of (nat (- i)) else digits_of (nat i))
      | JFloat f \<Rightarrow> f
      | JStr s \<Rightarrow> s
      | JList l \<Rightarrow> rp v
      | JDict d \<Rightarrow> rp v)"

text \<open>\<open>d.get(k, dflt)\<close> on a dict.\<close>

definition dict_get :: "(string \<times> json) list \<Rightarrow> string \<Rightarrow> json \<Rightarrow> json" where
  "dict_get d k dflt = (case map_of d k of Some v \<Rightarrow> v | None \<Rightarrow> dflt)"

text \<open>
  \<open>for x in v\<close>: the elements of a list, the keys of a dict, the characters of a string;
  TypeError for every other value.
\<close>

definition py_iter :: "json \<Rightarrow> error + json list" where
  "py_iter v =
     (case v of
        JList l \<Rightarrow> Inr l
      | JDict d \<Rightarrow> Inr (map (\<lambda>kv. JStr (fst kv)) d)
      | JStr s \<Rightarrow> Inr (map (\<lambda>c. JStr [c]) s)
      | _ \<Rightarrow> Inl TypeError)"

text \<open>A loop whose body can raise: the first error ends it.\<close>

fun fold_err :: "('a \<Rightarrow> 'b \<Rightarrow> error + 'a) \<Rightarrow> 'a \<Rightarrow> 'b list \<Rightarrow> error + 'a" where
  "fold_err f acc [] = Inr acc"
| "fold_err f acc (x # xs) =
     (case f acc x of Inl e \<Rightarrow> Inl e | Inr acc' \<Rightarrow> fold_err f acc' xs)"

section \<open>The structured-source extractor\<close>

fun first_list :: "(string \<times> json) list \<Rightarrow> string list \<Rightarrow> json list option" where
  "first_list d [] = None"
| "first_list d (k # ks) =
     (case dict_get d k JNull of JList l \<Rightarrow> Some l | _ \<Rightarrow> first_list d ks)"

definition extract_tests_array :: "json \<Rightarrow> error + json list" where
  "extract_tests_array obj =
     (case obj of
        JList l \<Rightarrow> Inr l
      | JDict d \<Rightarrow>
          (case first_list d [''tests'', ''items'', ''results'', ''cases''] of
             Some l \<Rightarrow> Inr l
           | None \<Rightarrow> Inl NoTestList)
      | _ \<Rightarrow> Inl NoTestList)"

definition preview_of :: "string \<Rightarrow> preview" where
  "preview_of ln = (if length ln > 160 then Truncated (take 160 ln) else Whole ln)"

text \<open>
  The loop \<open>for i, ln in enumerate(lines, 1)\<close> of the line-delimited fallback: \<open>lines\<close> are
  the lines it has still to read and \<open>i\<close> is the number of the first of them.
\<close>

fun ndjson_objs :: "(string \<Rightarrow> json option) \<Rightarrow> string \<Rightarrow> nat \<Rightarrow> string list \<Rightarrow> error + json list" where
  "ndjson_objs loads txt i [] = Inr []"
| "ndjson_objs loads txt i (ln # lines) =
     (case loads ln of
        None \<Rightarrow> Inl (NotJsonOrNdjson i (preview_of ln) (take 160 txt))
      | Some obj \<Rightarrow>
          (case ndjson_objs loads txt (i + 1) lines of
             Inl e \<Rightarrow> Inl e
           | Inr objs \<Rightarrow> Inr (obj # objs)))"

text \<open>
  The \<open>try\<close> block of \<open>parse_results_json\<close> and its handler. The handler catches
  \<open>json.JSONDecodeError\<close> only, so the ValueError of \<open>_extract_tests_array\<close> passes through.
\<close>

definition load_tests :: "(string \<Rightarrow> json option) \<Rightarrow> string \<Rightarrow> error + json list" where
  "load_tests loads txt =
     (case loads txt of
        Some data \<Rightarrow> extract_tests_array data
      | None \<Rightarrow>
          (let lines = filter (\<lambda>ln. strip ln \<noteq> []) (splitlines txt)
           in case ndjson_objs loads txt 1 lines of
                Inl e \<Rightarrow> Inl e
              | Inr objs \<Rightarrow> extract_tests_array (JList objs)))"

text \<open>The loop \<open>for i, item in enumerate(tests)\<close>, with the mapping \<open>result\<close> passed through.\<close>

fun collect_tests :: "(string \<Rightarrow> string) \<Rightarrow> (json \<Rightarrow> string) \<Rightarrow> nat \<Rightarrow> json list \<Rightarrow> ResultSet \<Rightarrow> error + ResultSet" where
  "collect_tests canon rp i [] result = Inr result"
| "collect_tests canon rp i (item # items) result =
     (case item of
        JDict d \<Rightarrow>
          (let name = strip (py_str rp (dict_get d ''name'' (JStr [])))
           in if name = [] then Inl (EntryMissingName i)
              else let status = canon (strip (py_str rp (dict_get d ''status'' (JStr []))))
                   in collect_tests canon rp (i + 1) items (AList.update name status result))
      | _ \<Rightarrow> Inl (EntryNotObject i item))"

text \<open>
  \<open>parse_results_json\<close>, from the text that \<open>_ensure_file_ok\<close> read. The function is the
  same in the three scripts but for the table behind \<open>_canon_status\<close>.
\<close>

definition parse_results_json_with :: "(string \<Rightarrow> string) \<Rightarrow> (string \<Rightarrow> json option) \<Rightarrow> (json \<Rightarrow> string) \<Rightarrow> string \<Rightarrow> error + ResultSet" where
  "parse_results_json_with canon loads rp txt =
     (case load_tests loads txt of
        Inl e \<Rightarrow> Inl e
      | Inr tests \<Rightarrow>
          (case collect_tests canon rp 0 tests [] of
             Inl e \<Rightarrow> Inl e
           | Inr result \<Rightarrow> if result = [] then Inl ZeroTests else Inr result))"

definition parse_results_json :: "(string \<Rightarrow> json option) \<Rightarrow> (json \<Rightarrow> string) \<Rightarrow> string \<Rightarrow> error + ResultSet" where
  "parse_results_json = parse_results_json_with canon_status"

definition parse_results_json_cpp :: "(string \<Rightarrow> json option) \<Rightarrow> (json \<Rightarrow> string) \<Rightarrow> string \<Rightarrow> error + ResultSet" where
  "parse_results_json_cpp = parse_results_json_with canon_status_cpp"

definition parse_results_json_rust :: "(string \<Rightarrow> json option) \<Rightarrow> (json \<Rightarrow> string) \<Rightarrow> string \<Rightarrow> error + ResultSet" where
  "parse_results_json_rust = parse_results_json_with canon_status_rust"

section \<open>The bracketed log, structured pass (script_cpp.py)\<close>

text \<open>\<open>a or b\<close>: \<open>a\<close> when it is truthy, else \<open>b\<close>.\<close>

definition py_or :: "json \<Rightarrow> json \<Rightarrow> json" where
  "py_or a b = (if truthy a then a else b)"

text \<open>
  The body of \<open>for tc in cases\<close> in \<open>_parse_gtest_json\<close>; \<open>ts\<close> is the dict of the suite.
  \<open>tc.get\<close> raises AttributeError unless \<open>tc\<close> is a dict, and so does \<open>.strip()\<close> unless the
  value chosen for the suite is a string.
\<close>

definition gtest_case :: "(json \<Rightarrow> string) \<Rightarrow> (string \<times> json) list \<Rightarrow> ResultSet \<Rightarrow> json \<Rightarrow> error + ResultSet" where
  "gtest_case rp ts results tc =
     (case tc of
        JDict c \<Rightarrow>
          (case py_or (py_or (dict_get c ''classname'' JNull) (dict_get ts ''name'' JNull)) (JStr []) of
             JStr sv \<Rightarrow>
               (let suite = strip sv;
                    test = strip (py_str rp (dict_get c ''name'' (JStr [])))
                in if test = [] then Inr results
                   else let name = (if suite \<noteq> [] then suite @ ''.'' @ test else test)
                        in if upper (py_str rp (dict_get c ''status'' (JStr []))) = ''SKIPPED''
                              \<or> upper (py_str rp (dict_get c ''result'' (JStr []))) = ''SKIPPED''
                           then Inr (AList.update name ''SKIPPED'' results)
                           else case dict_get c ''ok'' JNull of
                                  JBool ok \<Rightarrow>
                                    Inr (AList.update name (if ok then ''PASSED'' else ''FAILED'') results)
                                | _ \<Rightarrow>
                                    (let res = upper (strip (py_str rp (dict_get c ''result'' (JStr []))))
                                     in if res \<in> set [''PASSED'', ''SUCCESS'', ''COMPLETED'']
                                        then Inr (AList.update name ''PASSED'' results)
                                        else if res \<in> set [''FAILED'', ''FAILURE'']
                                        then Inr (AList.update name ''FAILED'' results)
                                        else if res = ''SKIPPED''
                                        then Inr (AList.update name ''SKIPPED'' results)
                                        else Inr results))
           | _ \<Rightarrow> Inl AttributeError)
      | _ \<Rightarrow> Inl AttributeError)"

text \<open>
  The body of \<open>for ts in obj.get("testsuites", [])\<close>:
  \<open>cases = ts.get("testsuite") or ts.get("tests", []) or []\<close>, then the loop over the cases.
\<close>

definition gtest_suite :: "(json \<Rightarrow> string) \<Rightarrow> ResultSet \<Rightarrow> json \<Rightarrow> error + ResultSet" where
  "gtest_suite rp results ts =
     (case ts of
        JDict t \<Rightarrow>
          (let cases = py_or (py_or (dict_get t ''testsuite'' JNull) (dict_get t ''tests'' (JList [])))
                         (JList [])
           in case py_iter cases of
                Inl e \<Rightarrow> Inl e
              | Inr tcs \<Rightarrow> fold_err (gtest_case rp t) results tcs)
      | _ \<Rightarrow> Inl AttributeError)"

definition parse_gtest_json :: "(string \<Rightarrow> json option) \<Rightarrow> (json \<Rightarrow> string) \<Rightarrow> string \<Rightarrow> error + ResultSet" where
  "parse_gtest_json loads rp txt =
     (case loads txt of
        None \<Rightarrow> Inr []
      | Some obj \<Rightarrow>
          (case obj of
             JDict d \<Rightarrow>
               if map_of d ''testsuites'' = None then Inr []
               else (case py_iter (dict_get d ''testsuites'' (JList [])) of
                       Inl e \<Rightarrow> Inl e
                     | Inr tss \<Rightarrow> fold_err (gtest_suite rp) [] tss)
           | _ \<Rightarrow> Inr []))"

text \<open>\<open>parse_gtest_log\<close>, from the text that \<open>_ensure_file_ok\<close> read.\<close>

definition parse_gtest_log :: "(string \<Rightarrow> json option) \<Rightarrow> (json \<Rightarrow> string) \<Rightarrow> string \<Rightarrow> error + ResultSet" where
  "parse_gtest_log loads rp txt =
     (case parse_gtest_json loads rp txt of
        Inl e \<Rightarrow> Inl e
      | Inr json_results \<Rightarrow>
          if json_results \<noteq> [] then Inr json_results else gtest_text_pass txt)"

section \<open>The systems-language log, structured pass (script_rust.py)\<close>

text \<open>
  The body of the loop of \<open>_parse_rust_json_lines\<close>. \<open>obj.get\<close> needs a dict: for a line
  that starts with a brace \<open>json.loads\<close> returns nothing else, and on any other value the
  call would raise AttributeError.
\<close>

definition rust_json_step :: "(string \<Rightarrow> json option) \<Rightarrow> (json \<Rightarrow> string) \<Rightarrow> ResultSet \<Rightarrow> string \<Rightarrow> error + ResultSet" where
  "rust_json_step loads rp results raw =
     (let line = strip raw
      in if line = [] then Inr results
         else if \<not> (take 1 line = ''{'' \<and> contains (CHR 0x22 # ''type'' @ [CHR 0x22]) line
                      \<and> contains (CHR 0x22 # ''event'' @ [CHR 0x22]) line)
         then Inr results
         else case loads line of
                None \<Rightarrow> Inr results
              | Some obj \<Rightarrow>
                  (case obj of
                     JDict d \<Rightarrow>
                       if dict_get d ''type'' JNull \<noteq> JStr ''test'' then Inr results
                       else let name = strip (py_str rp (dict_get d ''name'' (JStr [])))
                            in if name = [] then Inr results
                               else let ev = lower (strip (py_str rp (dict_get d ''event'' (JStr []))))
                                    in if ev = ''ok'' then Inr (AList.update name ''PASSED'' results)
                                       else if ev = ''failed'' then Inr (AList.update name ''FAILED'' results)
                                       else if ev = ''ignored'' then Inr (AList.update name ''SKIPPED'' results)
                                       else Inr results
                   | _ \<Rightarrow> Inl AttributeError))"

definition parse_rust_json_lines :: "(string \<Rightarrow> json option) \<Rightarrow> (json \<Rightarrow> string) \<Rightarrow> string \<Rightarrow> error + ResultSet" where
  "parse_rust_json_lines loads rp txt = fold_err (rust_json_step loads rp) [] (splitlines txt)"

text \<open>\<open>parse_rust_log\<close>, from the text that \<open>_ensure_file_ok\<close> read.\<close>

definition parse_rust_log :: "(string \<Rightarrow> json option) \<Rightarrow> (json \<Rightarrow> string) \<Rightarrow> string \<Rightarrow> error + ResultSet" where
  "parse_rust_log loads rp txt =
     (case parse_rust_json_lines loads rp txt of
        Inl e \<Rightarrow> Inl e
      | Inr json_results \<Rightarrow>
          if json_results \<noteq> [] then Inr json_results
          else let text_results = parse_rust_text_lines txt
               in if text_results \<noteq> [] then Inr text_results else Inl ZeroOutcomeLines)"

section \<open>Properties of the text functions\<close>

lemma of_char_sub32: "of_char (char_of (of_char c - (32::nat))) = (of_char c - 32 :: nat)"
proof -
  have "(of_char c :: nat) < 256" by simp
  then have "(of_char c - 32 :: nat) < 256" by arith
  then show ?thesis by simp
qed

lemma upper_char_cases:
  obtains (letter) "(97 \<le> (of_char c :: nat) \<and> (of_char c :: nat) \<le> 122) \<or>
                   (224 \<le> (of_char c :: nat) \<and> (of_char c :: nat) \<le> 254 \<and> (of_char c :: nat) \<noteq> 247)"
                   "upper_char c = [char_of ((of_char c :: nat) - 32)]"
  | (sharp) "(of_char c :: nat) = 223" "upper_char c = ''SS''"
  | (other) "upper_char c = [c]"
proof -
  have "((97 \<le> (of_char c :: nat) \<and> (of_char c :: nat) \<le> 122) \<or>
         (224 \<le> (of_char c :: nat) \<and> (of_char c :: nat) \<le> 254 \<and> (of_char c :: nat) \<noteq> 247)) \<and>
          upper_char c = [char_of ((of_char c :: nat) - 32)]
        \<or> (of_char c :: nat) = 223 \<and> upper_char c = ''SS''
        \<or> upper_char c = [c]"
    by (simp add: upper_char_def Let_def)
  then show thesis using letter sharp other by blast
qed

lemma upper_char_not_Nil: "upper_char c \<noteq> []"
  by (cases c rule: upper_char_cases) simp_all

lemma is_space_upper_char: "x \<in> set (upper_char c) \<Longrightarrow> is_space x = is_space c"
proof (cases c rule: upper_char_cases)
  case letter
  assume "x \<in> set (upper_char c)"
  with letter have x: "x = char_of ((of_char c :: nat) - 32)" by simp
  have m: "(of_char x :: nat) = of_char c - 32"
    unfolding x by (rule of_char_sub32)
  have l: "\<not> is_space c"
    using letter(1) unfolding is_space_def Let_def by linarith
  have r: "\<not> is_space x"
    using letter(1) unfolding is_space_def Let_def m by linarith
  from l r show ?thesis by simp
next
  case sharp
  assume "x \<in> set (upper_char c)"
  with sharp have "x = CHR ''S''" by simp
  then have "\<not> is_space x" by (simp add: is_space_def)
  moreover have "\<not> is_space c" using sharp(1) by (simp add: is_space_def)
  ultimately show ?thesis by simp
next
  case other
  assume "x \<in> set (upper_char c)"
  with other show ?thesis by simp
qed

lemma dropWhile_all: "\<forall>c\<in>set l. P c \<Longrightarrow> dropWhile P (l @ x) = dropWhile P x"
  by (induction l) auto

lemma rstrip_Cons:
  "rstrip (c # cs) = (if \<forall>x\<in>set (c # cs). is_space x then [] else c # rstrip cs)"
proof (cases "\<forall>x\<in>set cs. is_space x")
  case True
  then have "dropWhile is_space (rev cs @ [c]) = dropWhile is_space [c]"
    by (intro dropWhile_all) simp
  moreover from True have "dropWhile is_space (rev cs) = []" by simp
  ultimately show ?thesis using True by (simp add: rstrip_def)
next
  case False
  then obtain x where "x \<in> set (rev cs)" "\<not> is_space x" by auto
  then have "dropWhile is_space (rev cs @ [c]) = dropWhile is_space (rev cs) @ [c]"
    by (rule dropWhile_append1)
  with False show ?thesis by (auto simp: rstrip_def)
qed

lemma rstrip_Nil [simp]: "rstrip [] = []"
  by (simp add: rstrip_def)

lemma rstrip_all_space: "\<forall>x\<in>set s. is_space x \<Longrightarrow> rstrip s = []"
  by (simp add: rstrip_def)

lemma set_rstrip: "set (rstrip s) \<subseteq> set s"
  unfolding rstrip_def using set_dropWhileD by fastforce

lemma strip_commute: "lstrip (rstrip s) = rstrip (lstrip s)"
proof (induction s)
  case Nil
  show ?case by (simp add: lstrip_def)
next
  case (Cons c cs)
  show ?case
  proof (cases "is_space c")
    case True
    show ?thesis
    proof (cases "\<forall>x\<in>set cs. is_space x")
      case all: True
      have "rstrip (lstrip (c # cs)) = []"
      proof -
        from all have d: "dropWhile is_space cs = []" by simp
        show ?thesis using True by (simp add: lstrip_def d)
      qed
      moreover have "rstrip (c # cs) = []"
        using all True by (simp add: rstrip_Cons)
      ultimately show ?thesis by (simp add: lstrip_def)
    next
      case False
      then have "rstrip (c # cs) = c # rstrip cs" by (auto simp: rstrip_Cons)
      then have "lstrip (rstrip (c # cs)) = lstrip (rstrip cs)"
        using True by (simp add: lstrip_def)
      also have "\<dots> = rstrip (lstrip cs)" by (rule Cons.IH)
      also have "\<dots> = rstrip (lstrip (c # cs))" using True by (simp add: lstrip_def)
      finally show ?thesis .
    qed
  next
    case False
    then show ?thesis by (simp add: rstrip_Cons lstrip_def)
  qed
qed

lemma rstrip_append_space: "\<forall>c\<in>set r. is_space c \<Longrightarrow> rstrip (s @ r) = rstrip s"
  by (simp add: rstrip_def dropWhile_all)

lemma lstrip_append_space: "\<forall>c\<in>set l. is_space c \<Longrightarrow> lstrip (l @ s) = lstrip s"
  by (simp add: lstrip_def dropWhile_all)

lemma strip_pad:
  assumes "\<forall>c\<in>set l. is_space c" and "\<forall>c\<in>set r. is_space c"
  shows "strip (l @ s @ r) = strip s"
proof -
  have "strip (l @ s @ r) = lstrip (rstrip ((l @ s) @ r))" by (simp add: strip_def)
  also have "\<dots> = lstrip (rstrip (l @ s))" using assms(2) by (simp only: rstrip_append_space)
  also have "\<dots> = rstrip (lstrip (l @ s))" by (rule strip_commute)
  also have "\<dots> = rstrip (lstrip s)" using assms(1) by (simp only: lstrip_append_space)
  also have "\<dots> = strip s" by (simp add: strip_def strip_commute)
  finally show ?thesis .
qed

lemma dropWhile_concat_map:
  assumes ne: "\<And>c. g c \<noteq> []" and same: "\<And>c x. x \<in> set (g c) \<Longrightarrow> P x = P c"
  shows "dropWhile P (concat (map g s)) = concat (map g (dropWhile P s))"
proof (induction s)
  case Nil
  show ?case by simp
next
  case (Cons c cs)
  show ?case
  proof (cases "P c")
    case True
    then have "\<forall>x\<in>set (g c). P x" using same by simp
    then have "dropWhile P (g c @ concat (map g cs)) = dropWhile P (concat (map g cs))"
      by (rule dropWhile_all)
    with True Cons.IH show ?thesis by simp
  next
    case False
    obtain x xs where g: "g c = x # xs" using ne [of c] by (cases "g c") auto
    then have "\<not> P x" using same [of x c] False by simp
    then have "dropWhile P (g c @ concat (map g cs)) = g c @ concat (map g cs)"
      by (simp add: g)
    with False show ?thesis by simp
  qed
qed

lemma lstrip_upper: "lstrip (upper s) = upper (lstrip s)"
  unfolding lstrip_def upper_def
  by (rule dropWhile_concat_map) (simp_all add: upper_char_not_Nil is_space_upper_char)

lemma rev_upper: "rev (upper s) = concat (map (\<lambda>c. rev (upper_char c)) (rev s))"
  by (simp add: upper_def rev_concat rev_map comp_def)

lemma rstrip_upper: "rstrip (upper s) = upper (rstrip s)"
proof -
  have "dropWhile is_space (concat (map (\<lambda>c. rev (upper_char c)) (rev s)))
          = concat (map (\<lambda>c. rev (upper_char c)) (dropWhile is_space (rev s)))"
    by (rule dropWhile_concat_map) (simp_all add: upper_char_not_Nil is_space_upper_char)
  then have "rev (dropWhile is_space (rev (upper s)))
          = rev (concat (map (\<lambda>c. rev (upper_char c)) (dropWhile is_space (rev s))))"
    by (simp add: rev_upper)
  also have "\<dots> = rev (rev (upper (rev (dropWhile is_space (rev s)))))"
    by (simp only: rev_upper rev_rev_ident)
  also have "\<dots> = upper (rev (dropWhile is_space (rev s)))"
    by simp
  finally show ?thesis by (simp add: rstrip_def)
qed

lemma strip_upper: "strip (upper s) = upper (strip s)"
  by (simp add: strip_def rstrip_upper lstrip_upper)

lemma upper_append: "upper (s @ t) = upper s @ upper t"
  by (simp add: upper_def)

lemma covered_upper:
  assumes "\<forall>c\<in>set s. covered c"
  shows "\<forall>c\<in>set (upper s). covered c"
proof -
  have one: "covered x" if "covered c" "x \<in> set (upper_char c)" for c x
  proof (cases c rule: upper_char_cases)
    case letter
    with that(2) have x: "x = char_of ((of_char c :: nat) - 32)" by simp
    have m: "(of_char x :: nat) = of_char c - 32"
      unfolding x by (rule of_char_sub32)
    have "(of_char x :: nat) \<noteq> 181" "(of_char x :: nat) \<noteq> 255"
      using letter(1) unfolding m by linarith+
    then show ?thesis by (auto simp: covered_def)
  next
    case sharp
    with that(2) have "x = CHR ''S''" by simp
    then show ?thesis by (simp add: covered_def)
  next
    case other
    with that show ?thesis by simp
  qed
  with assms show ?thesis by (auto simp: upper_def)
qed

lemma covered_lower:
  assumes "\<forall>c\<in>set s. covered c"
  shows "\<forall>c\<in>set (lower s). covered c"
proof -
  have one: "covered (lower_char c)" if "covered c" for c
  proof (cases "(65 \<le> (of_char c :: nat) \<and> (of_char c :: nat) \<le> 90) \<or>
                (192 \<le> (of_char c :: nat) \<and> (of_char c :: nat) \<le> 222 \<and> (of_char c :: nat) \<noteq> 215)")
    case True
    then have l: "lower_char c = char_of ((of_char c :: nat) + 32)"
      by (auto simp: lower_char_def Let_def)
    have "((of_char c :: nat) + 32) < 256" using True by linarith
    then have m: "(of_char (lower_char c) :: nat) = of_char c + 32"
      unfolding l by simp
    have "(of_char (lower_char c) :: nat) \<noteq> 181" "(of_char (lower_char c) :: nat) \<noteq> 255"
      using True unfolding m by linarith+
    then show ?thesis by (auto simp: covered_def)
  next
    case False
    then have "lower_char c = c" by (auto simp: lower_char_def Let_def)
    with that show ?thesis by simp
  qed
  with assms show ?thesis by (auto simp: lower_def)
qed

lemma canon_pad:
  assumes "\<forall>c\<in>set l. is_space c" and "\<forall>c\<in>set r. is_space c"
  shows "canon_status_in t (l @ s @ r) = canon_status_in t s"
  using assms by (simp add: canon_status_in_def strip_pad)

lemma canon_case:
  assumes "upper s = upper s'"
  shows "canon_status_in t s = canon_status_in t s'"
proof -
  have "upper (strip s) = upper (strip s')"
    using assms by (simp add: strip_upper [symmetric])
  then show ?thesis by (simp add: canon_status_in_def)
qed

section \<open>Properties of the comparator\<close>

lemma finite_names_of: "finite (names_of d)"
  by (simp add: names_of_def)

lemma names_of_dom: "names_of d = dom (map_of d)"
  by (simp add: names_of_def dom_map_of_conv_image_fst)

lemma mismatch_of_common:
  assumes "n \<in> names_of A \<inter> names_of B"
  shows "\<exists>js ls. map_of A n = Some js \<and> map_of B n = Some ls \<and>
           mismatch_of A B n = (if js \<noteq> ls then Some (n, js, ls) else None)"
  using assms by (auto simp: names_of_dom mismatch_of_def)

lemma map_filter_Nil_iff: "List.map_filter f xs = [] \<longleftrightarrow> (\<forall>x\<in>set xs. f x = None)"
  by (induction xs) (auto split: option.splits)

lemma compare_only_in_json: "only_in_json (compare A B) = sorted_list_of_set (names_of A - names_of B)"
  by (simp add: compare_def Let_def)

lemma compare_only_in_log: "only_in_log (compare A B) = sorted_list_of_set (names_of B - names_of A)"
  by (simp add: compare_def Let_def)

lemma compare_counts_equal: "counts_equal (compare A B) \<longleftrightarrow> card (names_of A) = card (names_of B)"
  by (simp add: compare_def Let_def)

lemma compare_names_equal: "names_equal (compare A B) \<longleftrightarrow> names_of A = names_of B"
proof -
  have "names_equal (compare A B) \<longleftrightarrow>
          sorted_list_of_set (names_of A - names_of B) = [] \<and>
          sorted_list_of_set (names_of B - names_of A) = []"
    by (simp add: compare_def Let_def)
  also have "\<dots> \<longleftrightarrow> names_of A - names_of B = {} \<and> names_of B - names_of A = {}"
    by (simp add: finite_names_of)
  also have "\<dots> \<longleftrightarrow> names_of A = names_of B" by blast
  finally show ?thesis .
qed

lemma compare_statuses_equal:
  "statuses_equal (compare A B) \<longleftrightarrow> (\<forall>n\<in>names_of A \<inter> names_of B. map_of A n = map_of B n)"
proof -
  have fin: "finite (names_of A \<inter> names_of B)" by (simp add: finite_names_of)
  have "statuses_equal (compare A B) \<longleftrightarrow>
          (\<forall>n\<in>names_of A \<inter> names_of B. mismatch_of A B n = None)"
    using fin by (simp add: compare_def Let_def map_filter_Nil_iff)
  also have "\<dots> \<longleftrightarrow> (\<forall>n\<in>names_of A \<inter> names_of B. map_of A n = map_of B n)"
  proof (rule ball_cong [OF refl])
    fix n assume "n \<in> names_of A \<inter> names_of B"
    from mismatch_of_common [OF this] obtain js ls where
      "map_of A n = Some js" "map_of B n = Some ls"
      "mismatch_of A B n = (if js \<noteq> ls then Some (n, js, ls) else None)" by blast
    then show "mismatch_of A B n = None \<longleftrightarrow> map_of A n = map_of B n"
      by (cases "js = ls") simp_all
  qed
  finally show ?thesis .
qed

lemma compare_same: "same (compare A B) \<longleftrightarrow>
   counts_equal (compare A B) \<and> names_equal (compare A B) \<and> statuses_equal (compare A B)"
  by (simp add: compare_def Let_def)

lemma map_of_eq_iff_names:
  "map_of A = map_of B \<longleftrightarrow>
     names_of A = names_of B \<and> (\<forall>n\<in>names_of A \<inter> names_of B. map_of A n = map_of B n)"
proof
  assume "map_of A = map_of B"
  then show "names_of A = names_of B \<and> (\<forall>n\<in>names_of A \<inter> names_of B. map_of A n = map_of B n)"
    by (simp add: names_of_dom)
next
  assume h: "names_of A = names_of B \<and> (\<forall>n\<in>names_of A \<inter> names_of B. map_of A n = map_of B n)"
  show "map_of A = map_of B"
  proof (rule ext)
    fix n
    show "map_of A n = map_of B n"
    proof (cases "n \<in> names_of A")
      case True
      with h show ?thesis by simp
    next
      case False
      with h have "n \<notin> dom (map_of A)" "n \<notin> dom (map_of B)" by (simp_all add: names_of_dom)
      then show ?thesis by (simp add: domIff)
    qed
  qed
qed

section \<open>Claims about the comparator\<close>

text \<open>
  C1. \<open>compare(A, B).same\<close> is true if and only if \<open>A\<close> and \<open>B\<close> are equal as mappings:
  they have the same set of names and give the same outcome to every common name. The
  statement holds for all result sets, the empty ones included; the order in which the
  names were inserted plays no part.
\<close>

theorem compare_same_iff_equal_mappings:
  "(same (compare A B) \<longleftrightarrow> map_of A = map_of B) \<and>
   (same (compare A B) \<longleftrightarrow>
      names_of A = names_of B \<and> (\<forall>n\<in>names_of A \<inter> names_of B. map_of A n = map_of B n))"
proof -
  have "same (compare A B) \<longleftrightarrow>
      names_of A = names_of B \<and> (\<forall>n\<in>names_of A \<inter> names_of B. map_of A n = map_of B n)"
    unfolding compare_same compare_counts_equal compare_names_equal compare_statuses_equal
    by auto
  then show ?thesis by (simp only: map_of_eq_iff_names [symmetric])
qed

theorem compare_same_iff_equal_mappings_witness:
  "same (compare [(''a'', ''PASSED''), (''b'', ''FAILED'')] [(''b'', ''FAILED''), (''a'', ''PASSED'')]) \<and>
   \<not> same (compare [(''a'', ''PASSED''), (''b'', ''FAILED'')] [(''a'', ''PASSED''), (''b'', ''PASSED'')]) \<and>
   \<not> same (compare [(''a'', ''PASSED''), (''b'', ''FAILED'')] [(''a'', ''PASSED'')])"
proof -
  have e1: "map_of [(''a'', ''PASSED''), (''b'', ''FAILED'')] = map_of [(''b'', ''FAILED''), (''a'', ''PASSED'')]"
    by (rule ext) simp
  have e2: "map_of [(''a'', ''PASSED''), (''b'', ''FAILED'')] ''b'' \<noteq> map_of [(''a'', ''PASSED''), (''b'', ''PASSED'')] ''b''"
    by simp
  have e3: "map_of [(''a'', ''PASSED''), (''b'', ''FAILED'')] ''b'' \<noteq> map_of [(''a'', ''PASSED'')] ''b''"
    by simp
  from e2 have n2: "map_of [(''a'', ''PASSED''), (''b'', ''FAILED'')] \<noteq> map_of [(''a'', ''PASSED''), (''b'', ''PASSED'')]"
    by metis
  from e3 have n3: "map_of [(''a'', ''PASSED''), (''b'', ''FAILED'')] \<noteq> map_of [(''a'', ''PASSED'')]"
    by metis
  show ?thesis
    using e1 n2 n3
      compare_same_iff_equal_mappings [of "[(''a'', ''PASSED''), (''b'', ''FAILED'')]" "[(''b'', ''FAILED''), (''a'', ''PASSED'')]"]
      compare_same_iff_equal_mappings [of "[(''a'', ''PASSED''), (''b'', ''FAILED'')]" "[(''a'', ''PASSED''), (''b'', ''PASSED'')]"]
      compare_same_iff_equal_mappings [of "[(''a'', ''PASSED''), (''b'', ''FAILED'')]" "[(''a'', ''PASSED'')]"]
    by blast
qed

text \<open>
  C5. \<open>counts_equal\<close> says that the two sets of names have the same number of elements,
  \<open>names_equal\<close> that their symmetric difference is empty, each on its own: two
  mappings with no common name, the same number of names and at least one name have
  \<open>counts_equal\<close> true and \<open>names_equal\<close> false. Two empty mappings have both flags true.
\<close>

theorem compare_flags_independent:
  "(counts_equal (compare A B) \<longleftrightarrow> card (names_of A) = card (names_of B)) \<and>
   (names_equal (compare A B) \<longleftrightarrow> (names_of A - names_of B) \<union> (names_of B - names_of A) = {}) \<and>
   (names_of A \<inter> names_of B = {} \<longrightarrow> card (names_of A) = card (names_of B) \<longrightarrow> A \<noteq> [] \<longrightarrow>
      counts_equal (compare A B) \<and> \<not> names_equal (compare A B))"
proof -
  have a: "names_of A \<noteq> {}" if "A \<noteq> []" using that by (simp add: names_of_def)
  have "names_equal (compare A B) \<longleftrightarrow> (names_of A - names_of B) \<union> (names_of B - names_of A) = {}"
    unfolding compare_names_equal by blast
  moreover have "names_of A \<inter> names_of B = {} \<longrightarrow> card (names_of A) = card (names_of B) \<longrightarrow> A \<noteq> [] \<longrightarrow>
      counts_equal (compare A B) \<and> \<not> names_equal (compare A B)"
    unfolding compare_names_equal compare_counts_equal using a by blast
  ultimately show ?thesis by (simp only: compare_counts_equal simp_thms)
qed

theorem compare_flags_independent_witness:
  "counts_equal (compare [(''a'', ''PASSED'')] [(''b'', ''PASSED'')]) \<and>
   \<not> names_equal (compare [(''a'', ''PASSED'')] [(''b'', ''PASSED'')])"
proof -
  have h1: "names_of [(''a'', ''PASSED'')] \<inter> names_of [(''b'', ''PASSED'')] = {}"
    by (simp add: names_of_def)
  have h2: "card (names_of [(''a'', ''PASSED'')]) = card (names_of [(''b'', ''PASSED'')])"
    by (simp add: names_of_def)
  have h3: "[(''a'', ''PASSED'')] \<noteq> []" by simp
  show ?thesis
    using h1 h2 h3 compare_flags_independent [of "[(''a'', ''PASSED'')]" "[(''b'', ''PASSED'')]"]
    by blast
qed

text \<open>
  C5 as it was stated promises \<open>names_equal = false\<close> for every two disjoint mappings of
  equal size. The two empty mappings are disjoint and of equal size, and \<open>compare\<close> (which
  accepts empty mappings) reports both flags true for them.
\<close>

theorem compare_flags_empty_counterexample:
  "names_of [] \<inter> names_of [] = {} \<and>
   card (names_of []) = card (names_of []) \<and>
   counts_equal (compare [] []) \<and>
   names_equal (compare [] [])"
  by (simp add: compare_counts_equal compare_names_equal names_of_def)

text \<open>
  C8. Swapping the two arguments of \<open>compare\<close> swaps the two lists of names that are in
  one mapping only.
\<close>

theorem compare_role_swap:
  "only_in_json (compare A B) = only_in_log (compare B A) \<and>
   only_in_log (compare A B) = only_in_json (compare B A)"
  by (simp add: compare_only_in_json compare_only_in_log)

theorem compare_role_swap_witness:
  "only_in_json (compare [(''a'', ''PASSED''), (''c'', ''FAILED'')] [(''b'', ''PASSED'')]) = [''a'', ''c''] \<and>
   only_in_log (compare [(''b'', ''PASSED'')] [(''a'', ''PASSED''), (''c'', ''FAILED'')]) = [''a'', ''c'']"
proof -
  have "only_in_json (compare [(''a'', ''PASSED''), (''c'', ''FAILED'')] [(''b'', ''PASSED'')]) = [''a'', ''c'']"
    by code_simp
  then show ?thesis
    using compare_role_swap [of "[(''a'', ''PASSED''), (''c'', ''FAILED'')]" "[(''b'', ''PASSED'')]"]
    by simp
qed

text \<open>
  C10. In every result of \<open>compare\<close>, \<open>names_equal\<close> implies \<open>counts_equal\<close>, so \<open>same\<close> is the
  conjunction of \<open>names_equal\<close> and \<open>statuses_equal\<close>.
\<close>

theorem compare_names_equal_implies_counts_equal:
  "(names_equal (compare A B) \<longrightarrow> counts_equal (compare A B)) \<and>
   (same (compare A B) \<longleftrightarrow> names_equal (compare A B) \<and> statuses_equal (compare A B))"
proof -
  have "names_equal (compare A B) \<longrightarrow> counts_equal (compare A B)"
    unfolding compare_names_equal compare_counts_equal by simp
  then show ?thesis unfolding compare_same by blast
qed


theorem compare_names_equal_implies_counts_equal_witness:
  "names_equal (compare [(''a'', ''PASSED'')] [(''a'', ''FAILED'')]) \<and>
   counts_equal (compare [(''a'', ''PASSED'')] [(''a'', ''FAILED'')]) \<and>
   \<not> same (compare [(''a'', ''PASSED'')] [(''a'', ''FAILED'')])"
proof -
  have n: "names_equal (compare [(''a'', ''PASSED'')] [(''a'', ''FAILED'')])"
    by (simp add: compare_names_equal names_of_def)
  have s: "\<not> statuses_equal (compare [(''a'', ''PASSED'')] [(''a'', ''FAILED'')])"
    by (simp add: compare_statuses_equal names_of_def)
  show ?thesis
    using n s compare_names_equal_implies_counts_equal [of "[(''a'', ''PASSED'')]" "[(''a'', ''FAILED'')]"]
    by blast
qed

section \<open>Claims about the status canonicalizer\<close>

lemma strip_decomp:
  "\<exists>l r. s = l @ strip s @ r \<and> (\<forall>c\<in>set l. is_space c) \<and> (\<forall>c\<in>set r. is_space c)"
proof -
  let ?r = "rev (takeWhile is_space (rev s))"
  let ?l = "takeWhile is_space (rstrip s)"
  have "rev (takeWhile is_space (rev s) @ dropWhile is_space (rev s)) = rev (rev s)"
    by (simp only: takeWhile_dropWhile_id)
  then have a: "s = rstrip s @ ?r" by (simp add: rstrip_def del: takeWhile_dropWhile_id)
  have b: "rstrip s = ?l @ strip s" by (simp add: strip_def lstrip_def)
  have "rstrip s @ ?r = (?l @ strip s) @ ?r" using b by (rule arg_cong)
  with a have "s = ?l @ strip s @ ?r" by (simp only: append_assoc)
  moreover have "\<forall>c\<in>set ?l. is_space c" by (auto dest: set_takeWhileD)
  moreover have "\<forall>c\<in>set ?r. is_space c" by (auto dest: set_takeWhileD)
  ultimately show ?thesis by blast
qed

lemma strip_ends:
  assumes "strip s \<noteq> []"
  shows "\<not> is_space (hd (strip s)) \<and> \<not> is_space (last (strip s))"
proof -
  have h: "\<not> is_space (hd (strip s))"
    using assms unfolding strip_def lstrip_def by (rule hd_dropWhile)
  have "strip s = rstrip (lstrip s)"
    unfolding strip_def by (rule strip_commute)
  then have e: "strip s = rev (dropWhile is_space (rev (lstrip s)))"
    by (simp add: rstrip_def)
  from assms e have ne: "dropWhile is_space (rev (lstrip s)) \<noteq> []" by simp
  have "last (strip s) = hd (dropWhile is_space (rev (lstrip s)))"
    unfolding e using ne by (simp add: last_rev)
  moreover have "\<not> is_space (hd (dropWhile is_space (rev (lstrip s))))"
    using ne by (rule hd_dropWhile)
  ultimately show ?thesis using h by simp
qed

lemma upper_ascii_letter:
  assumes "97 \<le> (of_char c :: nat)" and "(of_char c :: nat) \<le> 122"
  shows "upper [c] = [char_of ((of_char c :: nat) - 32)]"
  using assms by (simp add: upper_def upper_char_def Let_def)

lemma upper_ascii_other:
  assumes "(of_char c :: nat) < 97 \<or> (122 < (of_char c :: nat) \<and> (of_char c :: nat) < 128)"
  shows "upper [c] = [c]"
  using assms by (auto simp: upper_def upper_char_def Let_def)

lemma canon_status_eq: "canon_status s = upper (strip s)"
proof -
  have "(case map_of CANON_STATUSES u of Some v \<Rightarrow> v | None \<Rightarrow> u) = u" for u
    by (simp add: CANON_STATUSES_def)
  then show ?thesis by (simp add: canon_status_def canon_status_in_def Let_def)
qed

lemma canon_status_cpp_eq:
  "canon_status_cpp s = (if upper (strip s) = ''OK'' then ''PASSED'' else upper (strip s))"
proof -
  have "(case map_of CANON_STATUSES_cpp u of Some v \<Rightarrow> v | None \<Rightarrow> u)
          = (if u = ''OK'' then ''PASSED'' else u)" for u
    by (simp add: CANON_STATUSES_cpp_def)
  then show ?thesis by (simp add: canon_status_cpp_def canon_status_in_def Let_def)
qed

lemma canon_status_rust_eq:
  "canon_status_rust s =
     (if upper (strip s) = ''OK'' then ''PASSED''
      else if upper (strip s) = ''IGNORED'' then ''SKIPPED''
      else upper (strip s))"
proof -
  have "(case map_of CANON_STATUSES_rust u of Some v \<Rightarrow> v | None \<Rightarrow> u)
          = (if u = ''OK'' then ''PASSED'' else if u = ''IGNORED'' then ''SKIPPED'' else u)" for u
    by (simp add: CANON_STATUSES_rust_def)
  then show ?thesis by (simp add: canon_status_rust_def canon_status_in_def Let_def)
qed

text \<open>
  C9. The canonicalizer has a value for every string: it is a function of its argument
  alone and has no error case. The value is the token trimmed and in upper case, but for
  the tokens the table of the dialect folds: the C++ table maps OK to PASSED, the table
  of the systems-language dialect maps OK to PASSED and IGNORED to SKIPPED, and the
  generic table folds nothing. Trimming removes exactly the white space around the token,
  and upper-casing works character by character. So the value does not depend on white
  space around the token nor on the case of its letters, and \<open>canonicalize(" passed ")\<close>
  equals \<open>canonicalize("PASSED")\<close> in every dialect.
\<close>

theorem canon_status_folds_and_never_fails:
  "canon_status s = upper (strip s) \<and>
   canon_status_cpp s = (if upper (strip s) = ''OK'' then ''PASSED'' else upper (strip s)) \<and>
   canon_status_rust s =
     (if upper (strip s) = ''OK'' then ''PASSED''
      else if upper (strip s) = ''IGNORED'' then ''SKIPPED''
      else upper (strip s)) \<and>
   (\<exists>l r. s = l @ strip s @ r \<and> (\<forall>c\<in>set l. is_space c) \<and> (\<forall>c\<in>set r. is_space c)) \<and>
   (strip s \<noteq> [] \<longrightarrow> \<not> is_space (hd (strip s)) \<and> \<not> is_space (last (strip s))) \<and>
   upper (s @ s') = upper s @ upper s' \<and>
   (97 \<le> (of_char c :: nat) \<and> (of_char c :: nat) \<le> 122 \<longrightarrow>
      upper [c] = [char_of ((of_char c :: nat) - 32)]) \<and>
   ((of_char c :: nat) < 97 \<or> (122 < (of_char c :: nat) \<and> (of_char c :: nat) < 128) \<longrightarrow>
      upper [c] = [c]) \<and>
   ((\<forall>x\<in>set p. is_space x) \<and> (\<forall>x\<in>set q. is_space x) \<longrightarrow>
      canon_status (p @ s @ q) = canon_status s \<and>
      canon_status_cpp (p @ s @ q) = canon_status_cpp s \<and>
      canon_status_rust (p @ s @ q) = canon_status_rust s) \<and>
   (upper s = upper s' \<longrightarrow>
      canon_status s = canon_status s' \<and>
      canon_status_cpp s = canon_status_cpp s' \<and>
      canon_status_rust s = canon_status_rust s') \<and>
   canon_status '' passed '' = ''PASSED'' \<and> canon_status ''PASSED'' = ''PASSED'' \<and>
   canon_status_cpp '' passed '' = ''PASSED'' \<and> canon_status_cpp ''PASSED'' = ''PASSED'' \<and>
   canon_status_rust '' passed '' = ''PASSED'' \<and> canon_status_rust ''PASSED'' = ''PASSED'' \<and>
   canon_status_cpp ''OK'' = ''PASSED'' \<and>
   canon_status_rust ''OK'' = ''PASSED'' \<and>
   canon_status_rust ''IGNORED'' = ''SKIPPED'' \<and>
   canon_status '' flaky '' = ''FLAKY''"
proof -
  have pad: "canon_status (p @ s @ q) = canon_status s \<and>
      canon_status_cpp (p @ s @ q) = canon_status_cpp s \<and>
      canon_status_rust (p @ s @ q) = canon_status_rust s"
    if "(\<forall>x\<in>set p. is_space x) \<and> (\<forall>x\<in>set q. is_space x)"
    using that by (simp add: canon_status_def canon_status_cpp_def canon_status_rust_def canon_pad)
  have cas: "canon_status s = canon_status s' \<and>
      canon_status_cpp s = canon_status_cpp s' \<and>
      canon_status_rust s = canon_status_rust s'"
    if "upper s = upper s'"
    using canon_case [OF that]
    by (simp add: canon_status_def canon_status_cpp_def canon_status_rust_def)
  have ev: "canon_status '' passed '' = ''PASSED'' \<and> canon_status ''PASSED'' = ''PASSED'' \<and>
   canon_status_cpp '' passed '' = ''PASSED'' \<and> canon_status_cpp ''PASSED'' = ''PASSED'' \<and>
   canon_status_rust '' passed '' = ''PASSED'' \<and> canon_status_rust ''PASSED'' = ''PASSED'' \<and>
   canon_status_cpp ''OK'' = ''PASSED'' \<and>
   canon_status_rust ''OK'' = ''PASSED'' \<and>
   canon_status_rust ''IGNORED'' = ''SKIPPED'' \<and>
   canon_status '' flaky '' = ''FLAKY''"
    by code_simp
  have ends: "strip s \<noteq> [] \<longrightarrow> \<not> is_space (hd (strip s)) \<and> \<not> is_space (last (strip s))"
    using strip_ends by blast
  have ul: "97 \<le> (of_char c :: nat) \<and> (of_char c :: nat) \<le> 122 \<longrightarrow>
      upper [c] = [char_of ((of_char c :: nat) - 32)]"
    using upper_ascii_letter by blast
  have uo: "(of_char c :: nat) < 97 \<or> (122 < (of_char c :: nat) \<and> (of_char c :: nat) < 128) \<longrightarrow>
      upper [c] = [c]"
    using upper_ascii_other by blast
  from canon_status_eq [of s] canon_status_cpp_eq [of s] canon_status_rust_eq [of s]
    strip_decomp [of s] ends upper_append [of s s'] ul uo pad cas ev
  show ?thesis by (intro conjI impI) blast+
qed

theorem canon_status_folds_and_never_fails_witness:
  "canon_status_rust [CHR 0x09, CHR ''o'', CHR ''k'', CHR '' ''] = canon_status_rust ''ok'' \<and>
   canon_status_rust ''ok'' = canon_status_rust ''Ok'' \<and>
   canon_status_rust ''Ok'' = ''PASSED'' \<and>
   canon_status_cpp ''ignored'' = ''IGNORED'' \<and>
   upper ''q'' = ''Q'' \<and> upper ''Q'' = ''Q'' \<and>
   \<not> is_space (hd (strip '' a b '')) \<and> \<not> is_space (last (strip '' a b ''))"
proof -
  have h1: "(\<forall>x\<in>set [CHR 0x09]. is_space x) \<and> (\<forall>x\<in>set '' ''. is_space x)" by code_simp
  have h2: "upper ''ok'' = upper ''Ok''" by code_simp
  have h3: "upper (strip ''Ok'') = ''OK''" by code_simp
  have h4: "upper (strip ''ignored'') = ''IGNORED''" by code_simp
  have h5: "97 \<le> (of_char CHR ''q'' :: nat) \<and> (of_char CHR ''q'' :: nat) \<le> 122" by simp
  have h6: "(of_char CHR ''Q'' :: nat) < 97" by simp
  have h7: "strip '' a b '' \<noteq> []" by code_simp
  have h8: "char_of ((of_char CHR ''q'' :: nat) - 32) = CHR ''Q''" by code_simp
  have w1: "canon_status_rust ([CHR 0x09] @ ''ok'' @ '' '') = canon_status_rust ''ok''"
    using h1 canon_status_folds_and_never_fails [of "''ok''" _ _ "[CHR 0x09]" "'' ''"] by blast
  have w2: "canon_status_rust ''ok'' = canon_status_rust ''Ok''"
    using h2 canon_status_folds_and_never_fails [of "''ok''" "''Ok''"] by blast
  have w3: "canon_status_rust ''Ok'' = ''PASSED''"
    using h3 canon_status_folds_and_never_fails [of "''Ok''"] by simp
  have w4: "canon_status_cpp ''ignored'' = ''IGNORED''"
    using h4 canon_status_folds_and_never_fails [of "''ignored''"] by simp
  have w5: "upper ''q'' = ''Q''"
    using h5 h8 canon_status_folds_and_never_fails [of _ _ "CHR ''q''"] by metis
  have w6: "upper ''Q'' = ''Q''"
    using h6 canon_status_folds_and_never_fails [of _ _ "CHR ''Q''"] by blast
  have w7: "\<not> is_space (hd (strip '' a b '')) \<and> \<not> is_space (last (strip '' a b ''))"
    using h7 canon_status_folds_and_never_fails [of "'' a b ''"] by blast
  from w1 w2 w3 w4 w5 w6 w7 show ?thesis by simp
qed

section \<open>Properties of the pattern matcher and of the generic log\<close>

lemma run_lit_iff:
  "(pv', r') \<in> set (run_lit l pv r) \<longleftrightarrow> r = l @ r' \<and> pv' = (if l = [] then pv else Some (last l))"
  by (induction l arbitrary: pv r) (auto split: list.splits)

lemma run_Lit_iff:
  "(pv', r', g') \<in> set (run (Lit l) (pv, r, g)) \<longleftrightarrow>
     r = l @ r' \<and> g' = g \<and> pv' = (if l = [] then pv else Some (last l))"
  by (auto simp: run_lit_iff)

lemma run_Seq_iff:
  "x \<in> set (run (Seq a b) st) \<longleftrightarrow> (\<exists>y\<in>set (run a st). x \<in> set (run b y))"
  by auto

lemma run_Rep_groups:
  "(pv', r', g') \<in> set (run (Rep gr m p) (pv, r, g)) \<Longrightarrow> g' = g"
  by (auto simp: Let_def split: if_splits)

lemma run_Grp_iff:
  "(pv', r', g') \<in> set (run (Grp n a) (pv, r, g)) \<longleftrightarrow>
     (\<exists>g0. (pv', r', g0) \<in> set (run a (pv, r, g)) \<and>
           g' = AList.update n (take (length r - length r') r) g0)"
  by force

lemma run_tail_groups:
  "(pv', r', g') \<in> set (run (Seq (Opt (Seq Bow (Rep True 0 dot))) Eos) (pv, r, g)) \<Longrightarrow> g' = g"
  by (auto simp: Let_def split: if_splits)

lemma run_status_alts:
  assumes "(pv', r', g') \<in> set (run (Grp ''status'' (alts [''PASSED'', ''FAILED'', ''SKIPPED'', ''XFAILED'', ''XPASS'',
                                 ''ERROR'', ''RERUN''])) (pv, r, g))"
  shows "map_of g' ''status'' \<in> Some ` set [''PASSED'', ''FAILED'', ''SKIPPED'', ''XFAILED'', ''XPASS'',
                                 ''ERROR'', ''RERUN'']"
  using assms unfolding run_Grp_iff
  by (auto simp: run_lit_iff AList.update_conv)


lemma re_match_in_run:
  "re_match r s = Some m \<Longrightarrow> \<exists>pv' r'. (pv', r', m) \<in> set (run r (None, s, []))"
  by (auto simp: re_match_def split: list.splits)

lemma LOG_LINE_RE_unfold:
  "LOG_LINE_RE =
     Seq Bos (Seq (Grp ''name'' (Rep False 1 dot)) (Seq (Rep True 1 is_space)
       (Seq (Grp ''status'' (alts [''PASSED'', ''FAILED'', ''SKIPPED'', ''XFAILED'', ''XPASS'',
                                 ''ERROR'', ''RERUN'']))
          (Seq (Opt (Seq Bow (Rep True 0 dot))) Eos))))"
  by (simp add: LOG_LINE_RE_def)

lemma LOG_LINE_RE_status:
  assumes "re_match LOG_LINE_RE line = Some m"
  shows "mgroup m ''status'' \<in> set [''PASSED'', ''FAILED'', ''SKIPPED'', ''XFAILED'', ''XPASS'',
                                 ''ERROR'', ''RERUN'']"
proof -
  from re_match_in_run [OF assms] obtain pv' r' where
    "(pv', r', m) \<in> set (run LOG_LINE_RE (None, line, []))" by blast
  then obtain s3 s4 where
    s4: "s4 \<in> set (run (Grp ''status'' (alts [''PASSED'', ''FAILED'', ''SKIPPED'', ''XFAILED'', ''XPASS'',
                                 ''ERROR'', ''RERUN''])) s3)"
    and fin: "(pv', r', m) \<in> set (run (Seq (Opt (Seq Bow (Rep True 0 dot))) Eos) s4)"
    unfolding LOG_LINE_RE_unfold run_Seq_iff by blast
  obtain p4 r4 g4 where e4: "s4 = (p4, r4, g4)" by (cases s4)
  obtain p3 r3 g3 where e3: "s3 = (p3, r3, g3)" by (cases s3)
  from fin have "m = g4" unfolding e4 by (rule run_tail_groups)
  moreover from s4 have "map_of g4 ''status'' \<in> Some ` set [''PASSED'', ''FAILED'', ''SKIPPED'', ''XFAILED'', ''XPASS'',
                                 ''ERROR'', ''RERUN'']"
    unfolding e4 e3 by (rule run_status_alts)
  ultimately show ?thesis by (auto simp: mgroup_def)
qed

lemma canon_status_vocab:
  assumes "s \<in> set [''PASSED'', ''FAILED'', ''SKIPPED'', ''XFAILED'', ''XPASS'', ''ERROR'', ''RERUN'']"
  shows "canon_status s = s"
proof -
  have "\<forall>x\<in>set [''PASSED'', ''FAILED'', ''SKIPPED'', ''XFAILED'', ''XPASS'', ''ERROR'', ''RERUN'']. canon_status x = x"
    by code_simp
  with assms show ?thesis by blast
qed

lemma re_match_LOG_LINE_RE_Nil: "re_match LOG_LINE_RE [] = None"
  by code_simp

lemma pytest_step_reads:
  "pytest_step d raw =
     (case pytest_line_reads raw of
        None \<Rightarrow> d
      | Some (n, s) \<Rightarrow> if s = ''RERUN'' then d else AList.update n s d)"
proof (cases "re_match LOG_LINE_RE (strip raw)")
  case None
  then show ?thesis by (simp add: pytest_step_def pytest_line_reads_def Let_def)
next
  case (Some m)
  then have ne: "strip raw \<noteq> []" using re_match_LOG_LINE_RE_Nil by auto
  have "canon_status (mgroup m ''status'') = mgroup m ''status''"
    using LOG_LINE_RE_status [OF Some] by (rule canon_status_vocab)
  then show ?thesis using Some ne by (simp add: pytest_step_def pytest_line_reads_def Let_def)
qed

lemma pytest_reads_vocab:
  "pytest_line_reads raw = Some (n, s) \<Longrightarrow>
     s \<in> set [''PASSED'', ''FAILED'', ''SKIPPED'', ''XFAILED'', ''XPASS'', ''ERROR'', ''RERUN'']"
  using LOG_LINE_RE_status by (auto simp: pytest_line_reads_def)

lemma foldl_pytest_keeps:
  assumes "map_of d n = Some s"
    and "\<forall>l\<in>set post. \<forall>s'. pytest_line_reads l = Some (n, s') \<longrightarrow> s' = ''RERUN''"
  shows "map_of (foldl pytest_step d post) n = Some s"
  using assms
proof (induction post arbitrary: d)
  case Nil
  then show ?case by simp
next
  case (Cons l post)
  have "map_of (pytest_step d l) n = Some s"
  proof (cases "pytest_line_reads l")
    case None
    with Cons.prems(1) show ?thesis by (simp add: pytest_step_reads)
  next
    case (Some a)
    obtain n' s' where a: "a = (n', s')" by (cases a)
    show ?thesis
    proof (cases "s' = ''RERUN''")
      case True
      with Some a Cons.prems(1) show ?thesis by (simp add: pytest_step_reads)
    next
      case False
      with Some a Cons.prems(2) have "n' \<noteq> n" by auto
      with Some a False Cons.prems(1) show ?thesis
        by (simp add: pytest_step_reads update_conv)
    qed
  qed
  moreover from Cons.prems(2)
  have "\<forall>l\<in>set post. \<forall>s'. pytest_line_reads l = Some (n, s') \<longrightarrow> s' = ''RERUN''" by simp
  ultimately show ?case using Cons.IH by simp
qed

lemma pytest_last_wins:
  assumes "pytest_line_reads l = Some (n, s)" and "s \<noteq> ''RERUN''"
    and "\<forall>l'\<in>set post. \<forall>s'. pytest_line_reads l' = Some (n, s') \<longrightarrow> s' = ''RERUN''"
  shows "map_of (foldl pytest_step [] (pre @ l # post)) n = Some s"
proof -
  have "map_of (pytest_step (foldl pytest_step [] pre) l) n = Some s"
    using assms(1,2) by (simp add: pytest_step_reads update_conv)
  then show ?thesis using assms(3) by (simp add: foldl_pytest_keeps)
qed

lemma pytest_lines_Inr:
  "foldl pytest_step [] ls \<noteq> [] \<Longrightarrow> pytest_lines ls = Inr (foldl pytest_step [] ls)"
  by (simp add: pytest_lines_def)

text \<open>
  C2. In the generic line-oriented extractor a line whose status token is RERUN leaves the
  mapping as it is, and the last line for a name whose token is not RERUN gives the name
  its outcome, whatever came before it. A log of a RERUN line for a name followed by a
  PASSED line for the same name yields that name with PASSED: no error, and no RERUN
  entry. The name a line is for is what \<open>LOG_LINE_RE\<close> reads as the name: all the text
  before the white space in front of the token, so for the line \<open>test X ... RERUN\<close> it is
  \<open>test X ...\<close>.
\<close>

theorem pytest_rerun_discarded_last_wins:
  "(pytest_line_reads raw = Some (n, ''RERUN'') \<longrightarrow> pytest_step d raw = d) \<and>
   (pytest_line_reads l = Some (n, s) \<and> s \<noteq> ''RERUN'' \<and>
      (\<forall>l'\<in>set post. \<forall>s'. pytest_line_reads l' = Some (n, s') \<longrightarrow> s' = ''RERUN'') \<longrightarrow>
      pytest_lines (pre @ l # post) = Inr (foldl pytest_step [] (pre @ l # post)) \<and>
      map_of (foldl pytest_step [] (pre @ l # post)) n = Some s \<and>
      s \<in> set [''PASSED'', ''FAILED'', ''SKIPPED'', ''XFAILED'', ''XPASS'', ''ERROR'']) \<and>
   (pytest_line_reads l1 = Some (n, ''RERUN'') \<and> pytest_line_reads l2 = Some (n, ''PASSED'') \<longrightarrow>
      pytest_lines [l1, l2] = Inr [(n, ''PASSED'')]) \<and>
   parse_pytest_log ''X RERUN\<newline>X PASSED'' = Inr [(''X'', ''PASSED'')] \<and>
   parse_pytest_log ''test X ... RERUN\<newline>test X ... PASSED'' = Inr [(''test X ...'', ''PASSED'')]"
proof -
  have p1: "pytest_line_reads raw = Some (n, ''RERUN'') \<longrightarrow> pytest_step d raw = d"
    by (simp add: pytest_step_reads)
  have p2: "pytest_lines (pre @ l # post) = Inr (foldl pytest_step [] (pre @ l # post)) \<and>
      map_of (foldl pytest_step [] (pre @ l # post)) n = Some s \<and>
      s \<in> set [''PASSED'', ''FAILED'', ''SKIPPED'', ''XFAILED'', ''XPASS'', ''ERROR'']"
    if h: "pytest_line_reads l = Some (n, s)" "s \<noteq> ''RERUN''"
      "\<forall>l'\<in>set post. \<forall>s'. pytest_line_reads l' = Some (n, s') \<longrightarrow> s' = ''RERUN''"
  proof -
    have m: "map_of (foldl pytest_step [] (pre @ l # post)) n = Some s"
      using h by (rule pytest_last_wins)
    then have "foldl pytest_step [] (pre @ l # post) \<noteq> []" by auto
    then have "pytest_lines (pre @ l # post) = Inr (foldl pytest_step [] (pre @ l # post))"
      by (rule pytest_lines_Inr)
    moreover have "s \<in> set [''PASSED'', ''FAILED'', ''SKIPPED'', ''XFAILED'', ''XPASS'', ''ERROR'']"
      using pytest_reads_vocab [OF h(1)] h(2) by auto
    ultimately show ?thesis using m by blast
  qed
  have p3: "pytest_lines [l1, l2] = Inr [(n, ''PASSED'')]"
    if "pytest_line_reads l1 = Some (n, ''RERUN'')" "pytest_line_reads l2 = Some (n, ''PASSED'')"
    using that by (simp add: pytest_lines_def pytest_step_reads)
  have p4: "parse_pytest_log ''X RERUN\<newline>X PASSED'' = Inr [(''X'', ''PASSED'')]"
    by code_simp
  have p5: "parse_pytest_log ''test X ... RERUN\<newline>test X ... PASSED'' = Inr [(''test X ...'', ''PASSED'')]"
    by code_simp
  from p1 p2 p3 p4 p5 show ?thesis by blast
qed

theorem pytest_rerun_discarded_last_wins_witness:
  "pytest_step [(''t::a'', ''FAILED'')] ''t::a RERUN'' = [(''t::a'', ''FAILED'')] \<and>
   pytest_lines [''t::a FAILED'', ''t::b ERROR'', ''t::a PASSED in 0.1s'', ''t::a RERUN'', ''t::c SKIPPED'']
     = Inr (foldl pytest_step [] [''t::a FAILED'', ''t::b ERROR'', ''t::a PASSED in 0.1s'', ''t::a RERUN'', ''t::c SKIPPED'']) \<and>
   map_of (foldl pytest_step [] [''t::a FAILED'', ''t::b ERROR'', ''t::a PASSED in 0.1s'', ''t::a RERUN'', ''t::c SKIPPED''])
     ''t::a'' = Some ''PASSED'' \<and>
   pytest_lines [''t::a RERUN'', ''t::a  PASSED''] = Inr [(''t::a'', ''PASSED'')]"
proof -
  have r1: "pytest_line_reads ''t::a RERUN'' = Some (''t::a'', ''RERUN'')" by code_simp
  have r2: "pytest_line_reads ''t::a PASSED in 0.1s'' = Some (''t::a'', ''PASSED'')" by code_simp
  have r3: "pytest_line_reads ''t::c SKIPPED'' = Some (''t::c'', ''SKIPPED'')" by code_simp
  have r4: "pytest_line_reads ''t::a  PASSED'' = Some (''t::a'', ''PASSED'')" by code_simp
  have post: "\<forall>l'\<in>set [''t::a RERUN'', ''t::c SKIPPED'']. \<forall>s'.
      pytest_line_reads l' = Some (''t::a'', s') \<longrightarrow> s' = ''RERUN''"
    using r1 r3 by simp
  have ne: "''PASSED'' \<noteq> ''RERUN''" by simp
  have w1: "pytest_step [(''t::a'', ''FAILED'')] ''t::a RERUN'' = [(''t::a'', ''FAILED'')]"
    using r1 pytest_rerun_discarded_last_wins [of "''t::a RERUN''" "''t::a''" "[(''t::a'', ''FAILED'')]"]
    by blast
  have w2: "pytest_lines ([''t::a FAILED'', ''t::b ERROR''] @ ''t::a PASSED in 0.1s'' # [''t::a RERUN'', ''t::c SKIPPED''])
     = Inr (foldl pytest_step [] ([''t::a FAILED'', ''t::b ERROR''] @ ''t::a PASSED in 0.1s'' # [''t::a RERUN'', ''t::c SKIPPED''])) \<and>
     map_of (foldl pytest_step [] ([''t::a FAILED'', ''t::b ERROR''] @ ''t::a PASSED in 0.1s'' # [''t::a RERUN'', ''t::c SKIPPED'']))
     ''t::a'' = Some ''PASSED''"
    using r2 ne post
      pytest_rerun_discarded_last_wins [of _ "''t::a''" _ "''t::a PASSED in 0.1s''" "''PASSED''"
        "[''t::a RERUN'', ''t::c SKIPPED'']" "[''t::a FAILED'', ''t::b ERROR'']"]
    by blast
  have w3: "pytest_lines [''t::a RERUN'', ''t::a  PASSED''] = Inr [(''t::a'', ''PASSED'')]"
    using r1 r4
      pytest_rerun_discarded_last_wins [of _ "''t::a''" _ _ _ _ _ "''t::a RERUN''" "''t::a  PASSED''"]
    by blast
  from w1 w2 w3 show ?thesis by simp
qed

section \<open>Properties of the bracketed log\<close>

lemma gtest_step_sets:
  "gtest_line_entry l = Some (n, st) \<Longrightarrow> map_of (gtest_step d l) n = Some st"
  by (simp add: gtest_step_def update_conv)

lemma gtest_step_other:
  "gtest_line_entry l = Some (n', st) \<Longrightarrow> n' \<noteq> n \<Longrightarrow> map_of (gtest_step d l) n = map_of d n"
  by (simp add: gtest_step_def update_conv)

lemma gtest_step_none:
  "gtest_line_entry l = None \<Longrightarrow> gtest_step d l = d"
  by (simp add: gtest_step_def)

lemma foldl_gtest_keeps:
  assumes "\<forall>l\<in>set post. \<forall>st. gtest_line_entry l \<noteq> Some (n, st)"
  shows "map_of (foldl gtest_step d post) n = map_of d n"
  using assms
proof (induction post arbitrary: d)
  case Nil
  show ?case by simp
next
  case (Cons l post)
  have "map_of (gtest_step d l) n = map_of d n"
  proof (cases "gtest_line_entry l")
    case None
    then show ?thesis by (simp add: gtest_step_none)
  next
    case (Some a)
    obtain n' st where a: "a = (n', st)" by (cases a)
    with Some Cons.prems have "n' \<noteq> n" by auto
    with Some a show ?thesis by (simp add: gtest_step_other)
  qed
  moreover from Cons.prems have "\<forall>l\<in>set post. \<forall>st. gtest_line_entry l \<noteq> Some (n, st)" by simp
  ultimately show ?case using Cons.IH by simp
qed

lemma gtest_later_line_wins:
  assumes "gtest_line_entry l = Some (n, st)"
    and "\<forall>l'\<in>set post. \<forall>st'. gtest_line_entry l' \<noteq> Some (n, st')"
  shows "map_of (foldl gtest_step [] (pre @ l # post)) n = Some st"
proof -
  have "map_of (foldl gtest_step (gtest_step (foldl gtest_step [] pre) l) post) n
          = map_of (gtest_step (foldl gtest_step [] pre) l) n"
    using assms(2) by (rule foldl_gtest_keeps)
  then show ?thesis using assms(1) by (simp add: gtest_step_sets)
qed

lemma parse_gtest_log_not_json:
  "loads txt = None \<Longrightarrow> parse_gtest_log loads rp txt = gtest_text_pass txt"
  by (simp add: parse_gtest_log_def parse_gtest_json_def)

text \<open>
  C4. In the text pass of the bracketed dialect a FAILED line for a name sets the name to
  FAILED whatever an earlier line (an OK line, say) gave it, and the entry stays until a
  later line for the same name. The log with the lines \<open>[ RUN ] T.One\<close>, \<open>[ OK ] T.One\<close>,
  \<open>[ RUN ] T.Two\<close>, \<open>[ FAILED ] T.Two\<close> and the summary line \<open>[ FAILED ] T.Two\<close> yields
  exactly T.One with PASSED and T.Two with FAILED (also through \<open>parse_gtest_log\<close>, since
  the text is not JSON), and the RUN lines set nothing.
\<close>

theorem gtest_failed_line_overwrites:
  "(gtest_line_entry ok_line = Some (n, ''PASSED'') \<and> gtest_line_entry failed_line = Some (n, ''FAILED'') \<longrightarrow>
      map_of (gtest_step d ok_line) n = Some ''PASSED'' \<and>
      map_of (gtest_step (gtest_step d ok_line) failed_line) n = Some ''FAILED'') \<and>
   (gtest_line_entry failed_line = Some (n, ''FAILED'') \<and>
      (\<forall>l'\<in>set post. \<forall>st'. gtest_line_entry l' \<noteq> Some (n, st')) \<longrightarrow>
      map_of (foldl gtest_step [] (pre @ failed_line # post)) n = Some ''FAILED'') \<and>
   gtest_text_pass ''[ RUN ] T.One\<newline>[ OK ] T.One\<newline>[ RUN ] T.Two\<newline>[ FAILED ] T.Two\<newline>[ FAILED ] T.Two''
     = Inr [(''T.One'', ''PASSED''), (''T.Two'', ''FAILED'')] \<and>
   (loads ''[ RUN ] T.One\<newline>[ OK ] T.One\<newline>[ RUN ] T.Two\<newline>[ FAILED ] T.Two\<newline>[ FAILED ] T.Two'' = None \<longrightarrow>
      parse_gtest_log loads rp ''[ RUN ] T.One\<newline>[ OK ] T.One\<newline>[ RUN ] T.Two\<newline>[ FAILED ] T.Two\<newline>[ FAILED ] T.Two''
        = Inr [(''T.One'', ''PASSED''), (''T.Two'', ''FAILED'')]) \<and>
   gtest_text_pass ''[ OK ] T.One\<newline>[ FAILED ] T.One'' = Inr [(''T.One'', ''FAILED'')] \<and>
   gtest_line_entry ''[ RUN ] T.One'' = None \<and>
   gtest_line_entry ''[ RUN ] T.Two'' = None"
proof -
  have p1: "map_of (gtest_step d ok_line) n = Some ''PASSED'' \<and>
      map_of (gtest_step (gtest_step d ok_line) failed_line) n = Some ''FAILED''"
    if "gtest_line_entry ok_line = Some (n, ''PASSED'')" "gtest_line_entry failed_line = Some (n, ''FAILED'')"
    using that by (simp add: gtest_step_sets)
  have p2: "map_of (foldl gtest_step [] (pre @ failed_line # post)) n = Some ''FAILED''"
    if "gtest_line_entry failed_line = Some (n, ''FAILED'')"
      "\<forall>l'\<in>set post. \<forall>st'. gtest_line_entry l' \<noteq> Some (n, st')"
    using that by (rule gtest_later_line_wins)
  have p3: "gtest_text_pass ''[ RUN ] T.One\<newline>[ OK ] T.One\<newline>[ RUN ] T.Two\<newline>[ FAILED ] T.Two\<newline>[ FAILED ] T.Two''
     = Inr [(''T.One'', ''PASSED''), (''T.Two'', ''FAILED'')]"
    by code_simp
  have p4: "parse_gtest_log loads rp ''[ RUN ] T.One\<newline>[ OK ] T.One\<newline>[ RUN ] T.Two\<newline>[ FAILED ] T.Two\<newline>[ FAILED ] T.Two''
        = Inr [(''T.One'', ''PASSED''), (''T.Two'', ''FAILED'')]"
    if "loads ''[ RUN ] T.One\<newline>[ OK ] T.One\<newline>[ RUN ] T.Two\<newline>[ FAILED ] T.Two\<newline>[ FAILED ] T.Two'' = None"
    using that p3 by (simp only: parse_gtest_log_not_json)
  have p5: "gtest_text_pass ''[ OK ] T.One\<newline>[ FAILED ] T.One'' = Inr [(''T.One'', ''FAILED'')]"
    by code_simp
  have p6: "gtest_line_entry ''[ RUN ] T.One'' = None" by code_simp
  have p7: "gtest_line_entry ''[ RUN ] T.Two'' = None" by code_simp
  from p1 p2 p3 p4 p5 p6 p7 show ?thesis by blast
qed

theorem gtest_failed_line_overwrites_witness:
  "map_of (gtest_step (gtest_step [] ''[       OK ] T.Two (0 ms)'') ''[  FAILED  ] T.Two'') ''T.Two'' = Some ''FAILED'' \<and>
   map_of (foldl gtest_step [] [''[       OK ] T.Two (0 ms)'', ''[  FAILED  ] T.Two'', ''[       OK ] T.One (1 ms)''])
     ''T.Two'' = Some ''FAILED'' \<and>
   parse_gtest_log (\<lambda>t. None) (\<lambda>v. [])
     ''[ RUN ] T.One\<newline>[ OK ] T.One\<newline>[ RUN ] T.Two\<newline>[ FAILED ] T.Two\<newline>[ FAILED ] T.Two''
     = Inr [(''T.One'', ''PASSED''), (''T.Two'', ''FAILED'')]"
proof -
  have e1: "gtest_line_entry ''[       OK ] T.Two (0 ms)'' = Some (''T.Two'', ''PASSED'')" by code_simp
  have e2: "gtest_line_entry ''[  FAILED  ] T.Two'' = Some (''T.Two'', ''FAILED'')" by code_simp
  have e3: "gtest_line_entry ''[       OK ] T.One (1 ms)'' = Some (''T.One'', ''PASSED'')" by code_simp
  have post: "\<forall>l'\<in>set [''[       OK ] T.One (1 ms)'']. \<forall>st'. gtest_line_entry l' \<noteq> Some (''T.Two'', st')"
    using e3 by simp
  have w1: "map_of (gtest_step (gtest_step [] ''[       OK ] T.Two (0 ms)'') ''[  FAILED  ] T.Two'') ''T.Two'' = Some ''FAILED''"
    using e1 e2
      gtest_failed_line_overwrites [of "''[       OK ] T.Two (0 ms)''" "''T.Two''" "''[  FAILED  ] T.Two''" "[]"]
    by blast
  have w2: "map_of (foldl gtest_step [] ([''[       OK ] T.Two (0 ms)''] @ ''[  FAILED  ] T.Two'' # [''[       OK ] T.One (1 ms)'']))
     ''T.Two'' = Some ''FAILED''"
    using e2 post
      gtest_failed_line_overwrites [of _ "''T.Two''" "''[  FAILED  ] T.Two''" _ "[''[       OK ] T.One (1 ms)'']"
        "[''[       OK ] T.Two (0 ms)'']"]
    by blast
  have w3: "parse_gtest_log (\<lambda>t. None) (\<lambda>v. [])
     ''[ RUN ] T.One\<newline>[ OK ] T.One\<newline>[ RUN ] T.Two\<newline>[ FAILED ] T.Two\<newline>[ FAILED ] T.Two''
     = Inr [(''T.One'', ''PASSED''), (''T.Two'', ''FAILED'')]"
    using gtest_failed_line_overwrites [where loads = "\<lambda>t. None" and rp = "\<lambda>v. []"]
    by blast
  from w1 w2 w3 show ?thesis by simp
qed

section \<open>Properties of the structured-source extractor\<close>

lemma collect_tests_not_empty:
  assumes "collect_tests canon rp i tests acc = Inr r" and "tests \<noteq> [] \<or> acc \<noteq> []"
  shows "r \<noteq> []"
  using assms
proof (induction tests arbitrary: i acc)
  case Nil
  then show ?case by simp
next
  case (Cons item items)
  from Cons.prems(1) obtain d where d: "item = JDict d"
    by (cases item) simp_all
  let ?name = "strip (py_str rp (dict_get d ''name'' (JStr [])))"
  let ?acc = "AList.update ?name (canon (strip (py_str rp (dict_get d ''status'' (JStr []))))) acc"
  from Cons.prems(1) d have "?name \<noteq> []"
    by (auto simp: Let_def split: if_splits)
  with Cons.prems(1) d have "collect_tests canon rp (i + 1) items ?acc = Inr r"
    by (simp add: Let_def)
  moreover have "items \<noteq> [] \<or> ?acc \<noteq> []" by simp
  ultimately show ?case by (rule Cons.IH)
qed

lemma collect_tests_Nil_iff:
  "collect_tests canon rp i tests [] = Inr [] \<longleftrightarrow> tests = []"
  using collect_tests_not_empty [of canon rp i tests "[]" "[]"] by auto

lemma parse_results_json_with_not_empty:
  "parse_results_json_with canon loads rp txt \<noteq> Inr []"
  by (auto simp: parse_results_json_with_def split: sum.splits)

lemma parse_results_json_with_zero:
  assumes "load_tests loads txt = Inr tests" and "collect_tests canon rp 0 tests [] = Inr []"
  shows "parse_results_json_with canon loads rp txt = Inl ZeroTests"
  using assms by (simp add: parse_results_json_with_def)

lemma load_tests_parsed:
  "loads txt = Some doc \<Longrightarrow> load_tests loads txt = extract_tests_array doc"
  by (simp add: load_tests_def)

text \<open>
  C7. A structured input that parses as a JSON document and gives no test entry (the
  empty array, an object whose list of tests is empty, or any array whose processing
  leaves the mapping empty, which only the empty array does) makes the extractor fail
  with the ValueError "Parsed JSON but found zero tests."; for no input at all does it
  return an empty result set. This holds for the extractor of each of the three scripts.
\<close>

theorem parse_results_json_zero_tests:
  "(loads txt = Some (JList []) \<longrightarrow> parse_results_json_with canon loads rp txt = Inl ZeroTests) \<and>
   (loads txt = Some doc \<and> extract_tests_array doc = Inr [] \<longrightarrow>
      parse_results_json_with canon loads rp txt = Inl ZeroTests) \<and>
   (loads txt = Some doc \<and> extract_tests_array doc = Inr tests \<and>
      collect_tests canon rp 0 tests [] = Inr [] \<longrightarrow>
      tests = [] \<and> parse_results_json_with canon loads rp txt = Inl ZeroTests) \<and>
   parse_results_json_with canon loads rp txt \<noteq> Inr [] \<and>
   parse_results_json loads rp txt \<noteq> Inr [] \<and>
   parse_results_json_cpp loads rp txt \<noteq> Inr [] \<and>
   parse_results_json_rust loads rp txt \<noteq> Inr [] \<and>
   is_ValueError ZeroTests"
proof -
  have p2: "parse_results_json_with canon loads rp txt = Inl ZeroTests"
    if "loads txt = Some doc" "extract_tests_array doc = Inr []"
    using that by (simp add: parse_results_json_with_def load_tests_parsed)
  have p1: "parse_results_json_with canon loads rp txt = Inl ZeroTests"
    if "loads txt = Some (JList [])"
    using that by (simp add: parse_results_json_with_def load_tests_parsed extract_tests_array_def)
  have p3: "tests = [] \<and> parse_results_json_with canon loads rp txt = Inl ZeroTests"
    if "loads txt = Some doc" "extract_tests_array doc = Inr tests"
      "collect_tests canon rp 0 tests [] = Inr []"
  proof -
    from that(3) have "tests = []" by (simp add: collect_tests_Nil_iff)
    with that(1,2) show ?thesis using p2 by simp
  qed
  have p4: "parse_results_json_with c loads rp txt \<noteq> Inr []" for c
    by (rule parse_results_json_with_not_empty)
  have p5: "is_ValueError ZeroTests" by (simp add: is_ValueError_def)
  from p1 p2 p3 p4 p5 show ?thesis
    unfolding parse_results_json_def parse_results_json_cpp_def parse_results_json_rust_def
    by blast
qed

theorem parse_results_json_zero_tests_witness:
  \<open>parse_results_json_with canon_status (map_of [(''[]'', JList [])]) (\<lambda>v. []) ''[]'' = Inl ZeroTests \<and>
   parse_results_json_with canon_status (map_of [(''{"tests": []}'', JDict [(''tests'', JList [])])]) (\<lambda>v. [])
     ''{"tests": []}'' = Inl ZeroTests\<close>
proof -
  have h1: "map_of [(''[]'', JList [])] ''[]'' = Some (JList [])" by simp
  have h2: \<open>map_of [(''{"tests": []}'', JDict [(''tests'', JList [])])] ''{"tests": []}''
              = Some (JDict [(''tests'', JList [])])\<close> by simp
  have h3: "extract_tests_array (JDict [(''tests'', JList [])]) = Inr []"
    by (simp add: extract_tests_array_def dict_get_def)
  have h4: "collect_tests canon_status (\<lambda>v. []) 0 [] [] = Inr []" by simp
  have w1: "parse_results_json_with canon_status (map_of [(''[]'', JList [])]) (\<lambda>v. []) ''[]'' = Inl ZeroTests"
    using h1 parse_results_json_zero_tests [of "map_of [(''[]'', JList [])]" "''[]''" canon_status "\<lambda>v. []"]
    by blast
  have w2: \<open>parse_results_json_with canon_status (map_of [(''{"tests": []}'', JDict [(''tests'', JList [])])]) (\<lambda>v. [])
     ''{"tests": []}'' = Inl ZeroTests\<close>
    using h2 h3 h4
      parse_results_json_zero_tests [of \<open>map_of [(''{"tests": []}'', JDict [(''tests'', JList [])])]\<close>
        \<open>''{"tests": []}''\<close> canon_status "\<lambda>v. []" "JDict [(''tests'', JList [])]" "[]"]
    by blast
  from w1 w2 show ?thesis by simp
qed

lemma preview_of_bounded:
  "(case preview_of ln of
      Whole s \<Rightarrow> s = ln \<and> length ln \<le> 160
    | Truncated s \<Rightarrow> s = take 160 ln \<and> length s = 160)"
  by (simp add: preview_of_def)

lemma ndjson_objs_first_bad:
  assumes "\<forall>l\<in>set pre. loads l \<noteq> None" and "loads ln = None"
  shows "ndjson_objs loads txt i (pre @ ln # post)
           = Inl (NotJsonOrNdjson (i + length pre) (preview_of ln) (take 160 txt))"
  using assms by (induction pre arbitrary: i) auto

text \<open>
  The number in the error of the line-delimited fallback counts the lines that are not
  blank: it is one more than the number of non-blank lines before the offending line.
\<close>

lemma parse_results_json_ndjson_error:
  assumes "loads txt = None" and "splitlines txt = pre @ ln # post"
    and "strip ln \<noteq> []" and "loads ln = None"
    and "\<forall>l\<in>set pre. strip l \<noteq> [] \<longrightarrow> loads l \<noteq> None"
  shows "parse_results_json_with canon loads rp txt
           = Inl (NotJsonOrNdjson (Suc (length (filter (\<lambda>l. strip l \<noteq> []) pre)))
                    (preview_of ln) (take 160 txt))"
proof -
  let ?nb = "\<lambda>l. strip l \<noteq> []"
  have f: "filter ?nb (splitlines txt) = filter ?nb pre @ ln # filter ?nb post"
    using assms(2,3) by simp
  have "\<forall>l\<in>set (filter ?nb pre). loads l \<noteq> None" using assms(5) by simp
  then have "ndjson_objs loads txt 1 (filter ?nb pre @ ln # filter ?nb post)
           = Inl (NotJsonOrNdjson (1 + length (filter ?nb pre)) (preview_of ln) (take 160 txt))"
    using assms(4) by (rule ndjson_objs_first_bad)
  then show ?thesis
    using assms(1) f by (simp add: parse_results_json_with_def load_tests_def)
qed

text \<open>
  C6. When the whole text is not one JSON document and a line of it is not JSON either,
  the extraction fails with an error that carries a number, a preview of the offending
  line (the line itself, or its first 160 characters) and the first 160 characters of
  the text. The claim reads the number as the number of the line in the input text.
  The code numbers the lines after it has dropped the blank ones, so behind a blank line
  the number is too small: in the text below the offending line is the third line, and
  the error says 2.
\<close>

theorem ndjson_error_number_skips_blank_lines:
  \<open>parse_results_json
      (map_of [(''{"name": "a", "status": "PASSED"}'',
                JDict [(''name'', JStr ''a''), (''status'', JStr ''PASSED'')])])
      (\<lambda>v. [])
      ''{"name": "a", "status": "PASSED"}\<newline>\<newline>{"name": "b" "status": "FAILED"}''
    = Inl (NotJsonOrNdjson 2 (Whole ''{"name": "b" "status": "FAILED"}'')
             ''{"name": "a", "status": "PASSED"}\<newline>\<newline>{"name": "b" "status": "FAILED"}'') \<and>
   splitlines ''{"name": "a", "status": "PASSED"}\<newline>\<newline>{"name": "b" "status": "FAILED"}''
    = [''{"name": "a", "status": "PASSED"}'', [], ''{"name": "b" "status": "FAILED"}'']\<close>
  by code_simp

section \<open>Properties of the multi-pass extractors\<close>

lemma parse_gtest_json_not_json:
  "loads txt = None \<Longrightarrow> parse_gtest_json loads rp txt = Inr []"
  by (simp add: parse_gtest_json_def)

lemma parse_gtest_json_no_suites:
  "loads txt = Some (JDict d) \<Longrightarrow> map_of d ''testsuites'' = Some (JList []) \<Longrightarrow>
     parse_gtest_json loads rp txt = Inr []"
  by (simp add: parse_gtest_json_def dict_get_def py_iter_def)

lemma parse_gtest_json_no_key:
  "loads txt = Some (JDict d) \<Longrightarrow> map_of d ''testsuites'' = None \<Longrightarrow>
     parse_gtest_json loads rp txt = Inr []"
  by (simp add: parse_gtest_json_def)

lemma parse_gtest_log_dispatch:
  "parse_gtest_json loads rp txt = Inr js \<Longrightarrow>
     parse_gtest_log loads rp txt = (if js = [] then gtest_text_pass txt else Inr js)"
  by (simp add: parse_gtest_log_def)

lemma parse_gtest_log_raises:
  "parse_gtest_json loads rp txt = Inl e \<Longrightarrow> parse_gtest_log loads rp txt = Inl e"
  by (simp add: parse_gtest_log_def)

lemma rust_json_step_total:
  assumes "\<forall>s v. loads s = Some v \<longrightarrow> take 1 s = ''{'' \<longrightarrow> (\<exists>d. v = JDict d)"
  shows "\<exists>r. rust_json_step loads rp results raw = Inr r"
proof (cases "loads (strip raw)")
  case None
  then show ?thesis by (simp add: rust_json_step_def Let_def)
next
  case (Some v)
  show ?thesis
  proof (cases "take 1 (strip raw) = ''{''")
    case True
    with Some assms obtain d where "v = JDict d" by blast
    with Some show ?thesis by (simp add: rust_json_step_def Let_def)
  next
    case False
    then show ?thesis by (simp add: rust_json_step_def Let_def)
  qed
qed

lemma fold_err_total:
  assumes "\<And>acc x. \<exists>r. f acc x = Inr r"
  shows "\<exists>r. fold_err f acc xs = Inr r"
proof (induction xs arbitrary: acc)
  case Nil
  show ?case by simp
next
  case (Cons x xs)
  from assms obtain a where "f acc x = Inr a" by blast
  with Cons.IH [of a] show ?case by simp
qed

lemma parse_rust_json_lines_total:
  assumes "\<forall>s v. loads s = Some v \<longrightarrow> take 1 s = ''{'' \<longrightarrow> (\<exists>d. v = JDict d)"
  shows "\<exists>r. parse_rust_json_lines loads rp txt = Inr r"
  unfolding parse_rust_json_lines_def
  by (rule fold_err_total) (rule rust_json_step_total [OF assms])

lemma parse_rust_log_dispatch:
  "parse_rust_json_lines loads rp txt = Inr js \<Longrightarrow>
     parse_rust_log loads rp txt =
       (if js \<noteq> [] then Inr js
        else if parse_rust_text_lines txt \<noteq> [] then Inr (parse_rust_text_lines txt)
        else Inl ZeroOutcomeLines)"
  by (simp add: parse_rust_log_def Let_def)

text \<open>
  C3. Both multi-pass extractors return the result of the structured pass when it has an
  entry and go on to the text pass when it is empty (lemmas \<open>parse_gtest_log_dispatch\<close>
  and \<open>parse_rust_log_dispatch\<close>), and text that is not JSON gives an empty structured
  pass. The claim also says that every document that parses and describes no test leads
  to the text pass and not to an immediate failure. The structured pass of the bracketed
  extractor breaks this: it iterates over the value of \<open>testsuites\<close> and over the cases of
  a suite without looking at what they are, so a document whose \<open>testsuites\<close> is \<open>null\<close>,
  or whose suite carries a count under \<open>tests\<close> and no list of cases, raises TypeError
  inside the structured pass, and the text pass is never reached.
\<close>

theorem gtest_structured_pass_raises_before_fallback:
  \<open>parse_gtest_json (map_of [(''{"testsuites": null}'', JDict [(''testsuites'', JNull)])]) (\<lambda>v. [])
      ''{"testsuites": null}'' = Inl TypeError \<and>
   parse_gtest_log (map_of [(''{"testsuites": null}'', JDict [(''testsuites'', JNull)])]) (\<lambda>v. [])
      ''{"testsuites": null}'' = Inl TypeError \<and>
   parse_gtest_log
      (map_of [(''{"testsuites": [{"name": "S", "tests": 2}]}'',
                JDict [(''testsuites'', JList [JDict [(''name'', JStr ''S''), (''tests'', JInt 2)]])])])
      (\<lambda>v. [])
      ''{"testsuites": [{"name": "S", "tests": 2}]}'' = Inl TypeError \<and>
   gtest_text_pass ''{"testsuites": null}'' = Inl ZeroOutcomeLines\<close>
  by code_simp

end
